theory Spec2Isabelle
  imports Complex_Main
begin

unbundle bit_operations_syntax

section \<open>Musicpi: the control program of \<open>Main.py\<close>\<close>

text \<open>
  A shallow embedding of the polling-loop control program in \<open>src/Main.py\<close>: the battery
  gauge read, the OLED title rendering with its circular scroll, track skipping, the rotary
  decoder and the multi-press button gesture of \<open>check_encoder\<close>.

  Conventions of the embedding.
  \<^item> Python integers are \<open>int\<close>; Python floats (volume, clock readings in seconds, gauge
    scaling) are idealised as \<open>real\<close>, so float rounding is not modelled.
  \<^item> The module globals are the fields of the record \<open>player\<close>; every function takes the
    state and returns the new one.
  \<^item> The clock is explicit. \<open>time.time()\<close> returns the current clock reading, which a
    function receives as \<open>now\<close>; \<open>time.sleep(d)\<close> advances the clock by exactly \<open>d\<close> and
    every other statement takes no time.
  \<^item> An exception that leaves a function is a value \<open>Inl e\<close>; an exception caught by a
    \<open>try\<close> inside the function is the branch of the model that the \<open>except\<close> clause takes.
  \<^item> The hardware and the audio service are an environment \<open>env\<close> of what they return,
    together with state fields for what the program last sent to them.
\<close>

subsection \<open>Configuration (lines 44-53)\<close>

definition MUSIC_DIR :: string where
  "MUSIC_DIR = ''/home/Music''"

definition OLED_WIDTH :: int where
  "OLED_WIDTH = 128"

definition I2C_ADDR :: int where
  "I2C_ADDR = 0x36"

definition REG_VOLTAGE :: int where
  "REG_VOLTAGE = 0x02"

definition REG_CAPACITY :: int where
  "REG_CAPACITY = 0x04"

subsection \<open>Exceptions and the environment\<close>

datatype py_error = IndexError | ZeroDivisionError | OSError

text \<open>
  The two-wire bus: \<open>SMBus(1)\<close> either fails to open or gives a bus whose
  \<open>read_word_data addr reg\<close> either fails or returns the raw register word.
\<close>

type_synonym smbus = "py_error + (int \<Rightarrow> int \<Rightarrow> py_error + int)"

text \<open>
  \<open>textlength\<close> is the font metric \<open>draw.textlength(track, font=font)\<close>, \<open>mixer_busy\<close> the
  answer of \<open>pygame.mixer.music.get_busy()\<close>, \<open>mixer_load_ok path\<close> whether
  \<open>pygame.mixer.music.load(path)\<close> succeeds (it raises otherwise).
\<close>

record env =
  textlength :: "string \<Rightarrow> real"
  bus :: smbus
  mixer_busy :: bool
  mixer_load_ok :: "string \<Rightarrow> bool"

subsection \<open>Battery gauge: \<open>read_battery\<close> (lines 120-135)\<close>

text \<open>The expression \<open>((raw << 8) & 0xFF00) + (raw >> 8)\<close> of lines 125 and 129.\<close>

definition swap_word :: "int \<Rightarrow> int" where
  "swap_word raw = ((push_bit 8 raw) AND 0xFF00) + (drop_bit 8 raw)"

text \<open>
  What the specification calls byte-swapping a 16-bit value: the low byte becomes the high
  byte and the high byte the low byte.
\<close>

definition byte_swapped16 :: "int \<Rightarrow> int" where
  "byte_swapped16 raw = (raw mod 256) * 256 + raw div 256"

definition read_battery :: "smbus \<Rightarrow> real \<times> real" where
  "read_battery b =
     (case b of
        Inl e \<Rightarrow> (0.0, 0.0)
      | Inr read_word_data \<Rightarrow>
          (case read_word_data I2C_ADDR REG_VOLTAGE of
             Inl e \<Rightarrow> (0.0, 0.0)
           | Inr raw \<Rightarrow>
               let raw = swap_word raw;
                   voltage = real_of_int raw * 1.25 / 1000 / 16
               in (case read_word_data I2C_ADDR REG_CAPACITY of
                     Inl e \<Rightarrow> (0.0, 0.0)
                   | Inr raw \<Rightarrow>
                       let raw = swap_word raw;
                           percent = real_of_int raw / 256
                       in (voltage, percent))))"

text \<open>A gauge read fails when the bus cannot be opened or one of the two register reads fails.\<close>

definition read_fails :: "smbus \<Rightarrow> bool" where
  "read_fails b =
     (case b of
        Inl e \<Rightarrow> True
      | Inr read_word_data \<Rightarrow>
          isl (read_word_data I2C_ADDR REG_VOLTAGE) \<or> isl (read_word_data I2C_ADDR REG_CAPACITY))"

subsection \<open>The player state (globals of lines 88-109 and the devices written to)\<close>

text \<open>
  \<open>events\<close> is the sequence of the program's decisions, in the order of the \<open>print\<close> calls
  that report them: a recognised rotation (lines 283 and 303) and an entry into
  \<open>play_pause\<close> (line 368) or \<open>skip_track\<close> (line 393).
\<close>

datatype event = StepClockwise | StepCounterClockwise | PlayPauseCalled | SkipTrackCalled bool

datatype mixer_call = Load string | Play | Pause | Unpause

text \<open>
  \<open>mixer_volume\<close> is the last argument of \<open>pygame.mixer.music.set_volume\<close>, \<open>mixer_calls\<close> the
  other calls made to the audio service, \<open>oled_title\<close> and \<open>oled_percent\<close> the title text and
  the battery percentage last drawn at lines 219/222 and 224. The debug counter
  \<open>scroll_update_count\<close>, the unused globals and the album-art timestamp are left out:
  nothing below reads them.
\<close>

record player =
  selected :: int
  playing :: bool
  songs :: "string list"
  last_battery_update :: real
  last_a :: int
  last_b :: int
  last_sw :: int
  current_volume :: real
  encoder_count :: int
  last_press_time :: real
  press_count :: int
  current_song_path :: "string option"
  scroll_position :: int
  last_scroll_time :: real
  last_states :: "(int \<times> int) list"
  mixer_volume :: real
  mixer_calls :: "mixer_call list"
  oled_title :: string
  oled_percent :: real
  events :: "event list"

text \<open>
  The state when the main loop is entered: the globals of lines 89-108, with the three input
  lines as first sampled, the catalog that \<open>load_music\<close> produced, \<open>last_states\<close> as line 256
  creates it and the volume forwarded at line 424.
\<close>

definition init_player :: "int \<Rightarrow> int \<Rightarrow> int \<Rightarrow> string list \<Rightarrow> player" where
  "init_player a b sw catalog =
     \<lparr> selected = 0, playing = False, songs = catalog, last_battery_update = 0,
       last_a = a, last_b = b, last_sw = sw, current_volume = 0.02, encoder_count = 0,
       last_press_time = 0, press_count = 0, current_song_path = None,
       scroll_position = 0, last_scroll_time = 0, last_states = [],
       mixer_volume = 0.02 / 2, mixer_calls = [], oled_title = [], oled_percent = 0,
       events = [] \<rparr>"

subsection \<open>Python list indexing and \<open>os.path.join\<close>\<close>

definition py_index :: "'a list \<Rightarrow> int \<Rightarrow> py_error + 'a" where
  "py_index xs i =
     (if 0 \<le> i \<and> i < int (length xs) then Inr (xs ! nat i)
      else if - int (length xs) \<le> i \<and> i < 0 then Inr (xs ! nat (int (length xs) + i))
      else Inl IndexError)"

definition path_join :: "string \<Rightarrow> string \<Rightarrow> string" where
  "path_join d f =
     (if f \<noteq> [] \<and> hd f = CHR ''/'' then f
      else if d = [] \<or> last d = CHR ''/'' then d @ f
      else d @ ''/'' @ f)"

subsection \<open>OLED rendering: \<open>display_update\<close> (lines 174-245)\<close>

text \<open>
  The loop of lines 214-217, for a title of positive length: fifteen characters from the
  scroll position on, each index reduced modulo the length of the title.
\<close>

definition scroll_window :: "string \<Rightarrow> int \<Rightarrow> string" where
  "scroll_window track p =
     fold (\<lambda>i display_text.
             let char_pos = (p + int i) mod int (length track)
             in display_text @ [track ! nat char_pos])
          [0..<15] []"

text \<open>
  \<open>songs[selected]\<close> at line 183 is outside the \<open>try\<close>, so its IndexError leaves the
  function. Inside the \<open>try\<close> a title of length 0 that is wider than the threshold divides by
  zero at line 209 or 216; the \<open>except\<close> of line 244 swallows that, and nothing is drawn. The
  drawing calls themselves are taken to succeed.
\<close>

definition display_update :: "env \<Rightarrow> real \<Rightarrow> player \<Rightarrow> py_error + player" where
  "display_update e now s =
     (case py_index (songs s) (selected s) of
        Inl err \<Rightarrow> Inl err
      | Inr track \<Rightarrow>
          let s = s\<lparr>current_song_path := Some (path_join MUSIC_DIR track)\<rparr>;
              percent = (if now - last_battery_update s > 0 then snd (read_battery (bus e)) else 0.0);
              s = (if now - last_battery_update s > 0 then s\<lparr>last_battery_update := now\<rparr> else s)
          in if textlength e track > real_of_int (OLED_WIDTH - 30) then
               (if length track = 0 then Inr s
                else
                  let s = (if now - last_scroll_time s > 0.3
                           then s\<lparr>scroll_position := (scroll_position s + 1) mod int (length track),
                                  last_scroll_time := now\<rparr>
                           else s)
                  in Inr (s\<lparr>oled_title := scroll_window track (scroll_position s),
                            oled_percent := percent\<rparr>))
             else Inr (s\<lparr>oled_title := track, oled_percent := percent\<rparr>))"

text \<open>A call of \<open>display_update\<close> from inside a \<open>try\<close> block whose \<open>except\<close> only prints.\<close>

definition display_update_caught :: "env \<Rightarrow> real \<Rightarrow> player \<Rightarrow> player" where
  "display_update_caught e now s =
     (case display_update e now s of Inl err \<Rightarrow> s | Inr s' \<Rightarrow> s')"

subsection \<open>\<open>play_pause\<close> (lines 366-388) and \<open>skip_track\<close> (lines 390-414)\<close>

definition play_pause :: "env \<Rightarrow> real \<Rightarrow> player \<Rightarrow> player" where
  "play_pause e now s =
     (let s = s\<lparr>events := events s @ [PlayPauseCalled]\<rparr>
      in if playing s then
           display_update_caught e now
             (s\<lparr>mixer_calls := mixer_calls s @ [Pause], playing := \<not> playing s\<rparr>)
         else if \<not> mixer_busy e then
           (case py_index (songs s) (selected s) of
              Inl err \<Rightarrow> s
            | Inr track \<Rightarrow>
                let song_path = path_join MUSIC_DIR track;
                    s = s\<lparr>current_song_path := Some song_path\<rparr>
                in if mixer_load_ok e song_path then
                     display_update_caught e now
                       (s\<lparr>mixer_calls := mixer_calls s @ [Load song_path, Play],
                          playing := \<not> playing s\<rparr>)
                   else s)
         else
           display_update_caught e now
             (s\<lparr>mixer_calls := mixer_calls s @ [Unpause], playing := \<not> playing s\<rparr>))"

text \<open>
  With an empty catalog line 398 or 401 divides by zero after \<open>scroll_position\<close> was cleared;
  the \<open>except\<close> of line 413 swallows it. After the modulo the index is in range, so the
  reads \<open>songs[selected]\<close> of lines 403-407 succeed.
\<close>

definition skip_track :: "env \<Rightarrow> real \<Rightarrow> bool \<Rightarrow> player \<Rightarrow> player" where
  "skip_track e now forward s =
     (let s = s\<lparr>events := events s @ [SkipTrackCalled forward]\<rparr>;
          s = s\<lparr>scroll_position := 0\<rparr>
      in if length (songs s) = 0 then s
         else
           let s = (if forward
                    then s\<lparr>selected := (selected s + 1) mod int (length (songs s))\<rparr>
                    else s\<lparr>selected := (selected s - 1) mod int (length (songs s))\<rparr>)
           in if playing s then
                (let song_path = path_join MUSIC_DIR (songs s ! nat (selected s));
                     s = s\<lparr>current_song_path := Some song_path\<rparr>
                 in if mixer_load_ok e song_path then
                      display_update_caught e now
                        (s\<lparr>mixer_calls := mixer_calls s @ [Load song_path, Play]\<rparr>)
                    else s)
              else display_update_caught e now s)"

subsection \<open>Rotation decoding: \<open>check_encoder\<close>, lines 264-316\<close>

text \<open>Lines 267-272: the changed pair is appended and the buffer is cut back to two entries.\<close>

definition record_state :: "int \<Rightarrow> int \<Rightarrow> player \<Rightarrow> player" where
  "record_state a b s =
     (let s = s\<lparr>last_states := last_states s @ [(a, b)]\<rparr>
      in if length (last_states s) > 2 then s\<lparr>last_states := tl (last_states s)\<rparr> else s)"

text \<open>
  Lines 282-292 and 302-312: the counter and the report of the step, then the volume while
  playing, the selection otherwise. With an empty catalog the modulo of line 291 or 311
  raises, and nothing in \<open>check_encoder\<close> catches it.
\<close>

definition clockwise_step :: "player \<Rightarrow> py_error + player" where
  "clockwise_step s =
     (let s = s\<lparr>encoder_count := encoder_count s + 1, events := events s @ [StepClockwise]\<rparr>
      in if playing s then
           let s = s\<lparr>current_volume := min 1.0 (current_volume s + 0.01)\<rparr>
           in Inr (s\<lparr>mixer_volume := current_volume s / 2\<rparr>)
         else
           let s = s\<lparr>scroll_position := 0\<rparr>
           in if length (songs s) = 0 then Inl ZeroDivisionError
              else Inr (s\<lparr>selected := (selected s + 1) mod int (length (songs s))\<rparr>))"

definition counter_clockwise_step :: "player \<Rightarrow> py_error + player" where
  "counter_clockwise_step s =
     (let s = s\<lparr>encoder_count := encoder_count s + 1,
                events := events s @ [StepCounterClockwise]\<rparr>
      in if playing s then
           let s = s\<lparr>current_volume := max 0.0 (current_volume s - 0.01)\<rparr>
           in Inr (s\<lparr>mixer_volume := current_volume s / 2\<rparr>)
         else
           let s = s\<lparr>scroll_position := 0\<rparr>
           in if length (songs s) = 0 then Inl ZeroDivisionError
              else Inr (s\<lparr>selected := (selected s - 1) mod int (length (songs s))\<rparr>))"

text \<open>
  Lines 293-296 and 313-316: the display is redrawn (not inside a \<open>try\<close>) and the buffer is
  collapsed to its last entry.
\<close>

definition finish_step :: "env \<Rightarrow> real \<Rightarrow> py_error + player \<Rightarrow> py_error + player" where
  "finish_step e now r =
     (case r of
        Inl err \<Rightarrow> Inl err
      | Inr s \<Rightarrow>
          (case display_update e now s of
             Inl err \<Rightarrow> Inl err
           | Inr s \<Rightarrow> Inr (s\<lparr>last_states := [last (last_states s)]\<rparr>)))"

definition rotary_step :: "env \<Rightarrow> real \<Rightarrow> int \<Rightarrow> int \<Rightarrow> player \<Rightarrow> py_error + player" where
  "rotary_step e now a b s =
     (if a \<noteq> last_a s \<or> b \<noteq> last_b s then
        let s = record_state a b s
        in if length (last_states s) = 2 then
             (if last_states s ! 0 = (1, 1) \<and> last_states s ! 1 = (1, 0) then
                finish_step e now (clockwise_step s)
              else if last_states s ! 0 = (1, 1) \<and> last_states s ! 1 = (0, 1) then
                finish_step e now (counter_clockwise_step s)
              else Inr s)
           else Inr s
      else Inr s)"

subsection \<open>Button gesture: \<open>check_encoder\<close>, lines 318-361\<close>

text \<open>Lines 322-328: the stale-gesture guard, the count of the press and its time.\<close>

definition register_press :: "real \<Rightarrow> player \<Rightarrow> player" where
  "register_press current_time s =
     (let s = (if current_time - last_press_time s > 1.5 then s\<lparr>press_count := 0\<rparr> else s)
      in s\<lparr>press_count := press_count s + 1, last_press_time := current_time\<rparr>)"

text \<open>
  The loop of lines 335-346. \<open>btn k\<close> is the \<open>k\<close>-th reading of the button line taken inside
  the loop (line 338), \<open>now\<close> the clock and \<open>timer_start\<close> the local of that name. The loop
  returns the clock at its exit, its timer and the state; a button that keeps producing
  presses keeps it running, which is the value \<open>None\<close>.
\<close>

partial_function (option) collect_presses ::
  "(nat \<Rightarrow> int) \<Rightarrow> nat \<Rightarrow> real \<Rightarrow> real \<Rightarrow> player \<Rightarrow> (real \<times> real \<times> player) option" where
  "collect_presses btn k now timer_start s =
     (if now - timer_start < 0.8 then
        let now = now + 0.18;
            new_sw = btn k;
            pressed = (new_sw = 0 \<and> last_sw s = 1);
            s = (if pressed
                 then s\<lparr>press_count := press_count s + 1, last_press_time := now\<rparr>
                 else s);
            timer_start = (if pressed then now else timer_start);
            s = s\<lparr>last_sw := new_sw\<rparr>;
            now = now + 0.05
        in collect_presses btn (Suc k) now timer_start s
      else Some (now, timer_start, s))"

text \<open>Lines 349-360: the collected presses are acted on and the counter is cleared.\<close>

definition process_presses :: "env \<Rightarrow> real \<Rightarrow> player \<Rightarrow> player" where
  "process_presses e now s =
     (let s = (if press_count s = 1 then play_pause e now s
               else if press_count s = 2 \<and> playing s then skip_track e now True s
               else if press_count s = 3 \<and> playing s then skip_track e now False s
               else s)
      in s\<lparr>press_count := 0\<rparr>)"

definition button_step :: "env \<Rightarrow> real \<Rightarrow> int \<Rightarrow> (nat \<Rightarrow> int) \<Rightarrow> player \<Rightarrow> player option" where
  "button_step e current_time sw btn s =
     (if sw = 0 \<and> last_sw s = 1 then
        let s = register_press current_time s
        in if press_count s = 1 then
             (case collect_presses btn 0 current_time current_time s of
                None \<Rightarrow> None
              | Some (now, timer_start, s) \<Rightarrow> Some (process_presses e now s))
           else Some s
      else Some s)"

subsection \<open>\<open>check_encoder\<close> (lines 250-364)\<close>

text \<open>
  One tick: \<open>a\<close>, \<open>b\<close> and \<open>sw\<close> are the readings of lines 259-261 and \<open>current_time\<close> the
  clock of line 262. The result is \<open>None\<close> when the collection loop does not end,
  \<open>Some (Inl err)\<close> when an exception leaves the function.
\<close>

definition check_encoder ::
  "env \<Rightarrow> real \<Rightarrow> int \<Rightarrow> int \<Rightarrow> int \<Rightarrow> (nat \<Rightarrow> int) \<Rightarrow> player \<Rightarrow> (py_error + player) option" where
  "check_encoder e current_time a b sw btn s =
     (case rotary_step e current_time a b s of
        Inl err \<Rightarrow> Some (Inl err)
      | Inr s \<Rightarrow>
          (case button_step e current_time sw btn s of
             None \<Rightarrow> None
           | Some s \<Rightarrow> Some (Inr (s\<lparr>last_a := a, last_b := b, last_sw := sw\<rparr>))))"

subsection \<open>The calls of \<open>check_encoder\<close> by the main loop (line 440)\<close>

text \<open>
  One tick is what one call of \<open>check_encoder\<close> gets from outside: the environment, the
  clock, the three line readings and the readings of the button line inside the collection
  loop. A run stops at the first exception, as the main loop does (lines 470-472).
\<close>

type_synonym tick = "env \<times> real \<times> int \<times> int \<times> int \<times> (nat \<Rightarrow> int)"

fun run_ticks :: "tick list \<Rightarrow> player \<Rightarrow> (py_error + player) option" where
  "run_ticks [] s = Some (Inr s)"
| "run_ticks ((e, now, a, b, sw, btn) # ticks) s =
     (case check_encoder e now a b sw btn s of
        None \<Rightarrow> None
      | Some (Inl err) \<Rightarrow> Some (Inl err)
      | Some (Inr s') \<Rightarrow> run_ticks ticks s')"

subsection \<open>The history of changed states, in the specification's words\<close>

text \<open>
  The specification keeps "a history of the last two changed raw (lineA, lineB) pairs (a
  state is appended only when it differs from the immediately preceding sampled pair)".
  \<open>changed_states prev samples\<close> are the samples that differ from the pair sampled
  immediately before them, \<open>prev\<close> being the pair sampled before the first; \<open>last_two\<close>
  keeps the last two entries of a list; \<open>tick_lines\<close> is the pair of line readings of a
  tick. These three are not taken from the code: the decoder is compared with them.
\<close>

fun changed_states :: "int \<times> int \<Rightarrow> (int \<times> int) list \<Rightarrow> (int \<times> int) list" where
  "changed_states prev [] = []"
| "changed_states prev (x # xs) =
     (if x \<noteq> prev then x # changed_states x xs else changed_states x xs)"

definition last_two :: "'a list \<Rightarrow> 'a list" where
  "last_two xs = drop (length xs - 2) xs"

definition tick_lines :: "tick \<Rightarrow> int \<times> int" where
  "tick_lines t = (case t of (e, now, a, b, sw, btn) \<Rightarrow> (a, b))"

subsection \<open>Concrete inputs\<close>

text \<open>
  A gauge that answers both register reads, a font of seven pixels per character, an idle
  audio service that loads every file, and a catalog of a short and a long title.
\<close>

definition gauge_example :: "int \<Rightarrow> int \<Rightarrow> py_error + int" where
  "gauge_example addr reg = (if reg = 2 then Inr (0xD0 * 256 + 0x20) else Inr (0x80 * 256 + 0x60))"

definition seven_pixels :: "string \<Rightarrow> real" where
  "seven_pixels track = 7 * real (length track)"

definition load_succeeds :: "string \<Rightarrow> bool" where
  "load_succeeds song_path = True"

definition env_example :: env where
  "env_example = \<lparr> textlength = seven_pixels, bus = Inr gauge_example,
       mixer_busy = False, mixer_load_ok = load_succeeds \<rparr>"

definition catalog_example :: "string list" where
  "catalog_example = [''a.mp3'', ''LongTrackTitleNameHere.mp3'']"

text \<open>The player as the main loop first sees it, all three lines high.\<close>

definition idle_example :: player where
  "idle_example = init_player 1 1 1 catalog_example"

text \<open>The same player with the last track of the catalog selected, mid-scroll.\<close>

definition last_selected_example :: player where
  "last_selected_example = idle_example\<lparr>selected := 1, scroll_position := 20\<rparr>"

text \<open>Button lines inside the collection loop: never pressed, held down, pressed once more.\<close>

definition released :: "nat \<Rightarrow> int" where
  "released k = 1"

definition held :: "nat \<Rightarrow> int" where
  "held k = 0"

definition second_press :: "nat \<Rightarrow> int" where
  "second_press k = (if k = Suc 0 then 0 else 1)"

text \<open>
  The knob turned clockwise by \<open>n\<close> detents with the button up: the lines read (1,1) and
  then (1,0), ten milliseconds apart, \<open>n\<close> times over.
\<close>

fun clockwise_turn :: "env \<Rightarrow> real \<Rightarrow> nat \<Rightarrow> tick list" where
  "clockwise_turn e now 0 = []"
| "clockwise_turn e now (Suc n) =
     (e, now, 1, 1, 1, released) # (e, now + 0.01, 1, 0, 1, released) #
     clockwise_turn e (now + 0.02) n"

text \<open>The idle player with the knob at rest after the lines were last seen at (0,1).\<close>

definition detent_example :: player where
  "detent_example = idle_example\<lparr>last_states := [(0, 1), (1, 1)]\<rparr>"

text \<open>The same while the long title plays, mid-scroll.\<close>

definition playing_example :: player where
  "playing_example = last_selected_example\<lparr>playing := True, last_states := [(0, 1), (1, 1)]\<rparr>"

text \<open>A playing player turned all the way down, the lines last seen at (1,0).\<close>

definition muted_example :: player where
  "muted_example = idle_example\<lparr>playing := True, current_volume := 0.0, mixer_volume := 0.0,
     last_b := 0, last_states := [(1, 0)]\<rparr>"

text \<open>The idle player at clock 2, its first press just registered (lines 322-328).\<close>

definition pressed_example :: player where
  "pressed_example = register_press 2 idle_example"

text \<open>
  The states the collection loop reaches from there: at its exit after one more press, and
  after its first pass with the button held.
\<close>

definition second_press_end :: player where
  "second_press_end = pressed_example\<lparr>press_count := 2, last_press_time := 2.41, last_sw := 1\<rparr>"

definition held_first_pass :: player where
  "held_first_pass = pressed_example\<lparr>press_count := 2, last_press_time := 2.18, last_sw := 0\<rparr>"

text \<open>A player whose counter still holds two presses, the last of them at clock 0.4.\<close>

definition stale_example :: player where
  "stale_example = idle_example\<lparr>press_count := 2, last_press_time := 0.4\<rparr>"

text \<open>
  A player started with the lines at (0,1), the one tick that brings the knob to rest at
  (1,1), and the state after that tick.
\<close>

definition to_rest_example :: "tick list" where
  "to_rest_example = [(env_example, 1, 1, 1, 1, released)]"

definition rest_example :: player where
  "rest_example = (init_player 0 1 1 catalog_example)\<lparr>last_a := 1, last_b := 1,
     last_states := [(1, 1)]\<rparr>"

section \<open>Properties\<close>

subsection \<open>Battery gauge\<close>

lemma swap_word_byte_swapped16: "swap_word raw = byte_swapped16 raw"
proof -
  have m: "(0xFF00 :: int) = push_bit 8 (mask 8)"
    by (simp add: mask_eq_exp_minus_1 push_bit_eq_mult)
  have "(push_bit 8 raw) AND (0xFF00 :: int) = push_bit 8 (raw AND mask 8)"
    unfolding m by simp
  also have "\<dots> = (raw mod 256) * 256"
    by (simp add: take_bit_eq_mask [symmetric] take_bit_eq_mod push_bit_eq_mult)
  finally show ?thesis
    by (simp add: swap_word_def byte_swapped16_def drop_bit_eq_div)
qed

lemma swap_word_bytes:
  assumes "0 \<le> lo" "lo < 256"
  shows "swap_word (hi * 256 + lo) = lo * 256 + hi"
  using assms by (simp add: swap_word_byte_swapped16 byte_swapped16_def)

text \<open>
  C9. A gauge read that fails (the bus does not open, or either register read raises)
  returns exactly \<open>(0.0, 0.0)\<close>; \<open>read_battery\<close> has no exceptional result at all. A read
  that succeeds with the voltage register word \<open>vh * 256 + vl\<close> and the capacity register
  word \<open>ch * 256 + cl\<close> (low bytes \<open>vl\<close>, \<open>cl\<close>) returns the voltage
  \<open>(vl * 256 + vh) * 1.25 / 1000 / 16\<close> and the percentage \<open>(cl * 256 + ch) / 256\<close>: the two
  bytes of each word are swapped before scaling.
\<close>

theorem read_battery_reading:
  "(read_fails b \<longrightarrow> read_battery b = (0.0, 0.0)) \<and>
   (b = Inr rd \<and> rd I2C_ADDR REG_VOLTAGE = Inr (vh * 256 + vl) \<and>
    rd I2C_ADDR REG_CAPACITY = Inr (ch * 256 + cl) \<and>
    0 \<le> vl \<and> vl < 256 \<and> 0 \<le> cl \<and> cl < 256 \<longrightarrow>
    read_battery b =
      (real_of_int (vl * 256 + vh) * 1.25 / 1000 / 16, real_of_int (cl * 256 + ch) / 256))"
proof (intro conjI impI)
  assume "read_fails b"
  then show "read_battery b = (0.0, 0.0)"
    by (auto simp: read_fails_def read_battery_def Let_def split: sum.splits)
next
  assume h: "b = Inr rd \<and> rd I2C_ADDR REG_VOLTAGE = Inr (vh * 256 + vl) \<and>
    rd I2C_ADDR REG_CAPACITY = Inr (ch * 256 + cl) \<and>
    0 \<le> vl \<and> vl < 256 \<and> 0 \<le> cl \<and> cl < 256"
  then have "swap_word (vh * 256 + vl) = vl * 256 + vh"
    and "swap_word (ch * 256 + cl) = cl * 256 + ch"
    by (simp_all add: swap_word_bytes)
  with h show "read_battery b =
      (real_of_int (vl * 256 + vh) * 1.25 / 1000 / 16, real_of_int (cl * 256 + ch) / 256)"
    by (simp add: read_battery_def Let_def)
qed

theorem read_battery_reading_witness:
  "read_fails (Inl OSError) \<and> read_battery (Inl OSError) = (0.0, 0.0) \<and>
   read_battery (Inr gauge_example) = (0.65625, 96.5)"
proof -
  have f: "read_fails (Inl OSError)"
    by (simp add: read_fails_def)
  have g: "Inr gauge_example = Inr gauge_example \<and>
      gauge_example I2C_ADDR REG_VOLTAGE = Inr (0xD0 * 256 + 0x20) \<and>
      gauge_example I2C_ADDR REG_CAPACITY = Inr (0x80 * 256 + 0x60) \<and>
      (0::int) \<le> 0x20 \<and> (0x20::int) < 256 \<and> (0::int) \<le> 0x60 \<and> (0x60::int) < 256"
    by (simp add: gauge_example_def REG_VOLTAGE_def REG_CAPACITY_def)
  have "read_battery (Inl OSError) = (0.0, 0.0)"
    by (rule read_battery_reading [of "Inl OSError", THEN conjunct1, THEN mp, OF f])
  moreover have "read_battery (Inr gauge_example) =
      (real_of_int (0x20 * 256 + 0xD0) * 1.25 / 1000 / 16, real_of_int (0x60 * 256 + 0x80) / 256)"
    by (rule read_battery_reading [of "Inr gauge_example" gauge_example "0xD0" "0x20" "0x80" "0x60",
          THEN conjunct2, THEN mp, OF g])
  ultimately show ?thesis using f by simp
qed

subsection \<open>Rendering and scrolling of the title\<close>

lemma fold_snoc_map: "fold (\<lambda>i acc. acc @ [f i]) xs acc0 = acc0 @ map f xs"
  by (induction xs arbitrary: acc0) simp_all

lemma scroll_window_map:
  "scroll_window track p = map (\<lambda>i. track ! nat ((p + int i) mod int (length track))) [0..<15]"
  by (simp add: scroll_window_def Let_def fold_snoc_map)

lemma py_index_in_range:
  "0 \<le> i \<Longrightarrow> i < int (length xs) \<Longrightarrow> py_index xs i = Inr (xs ! nat i)"
  by (simp add: py_index_def)

text \<open>What a redraw leaves alone.\<close>

lemma display_update_frame:
  assumes "display_update e now s = Inr s'"
  shows "selected s' = selected s" "playing s' = playing s" "songs s' = songs s"
    "current_volume s' = current_volume s" "mixer_volume s' = mixer_volume s"
    "press_count s' = press_count s" "events s' = events s" "last_states s' = last_states s"
    "last_a s' = last_a s" "last_b s' = last_b s" "last_sw s' = last_sw s"
    "encoder_count s' = encoder_count s" "last_press_time s' = last_press_time s"
    "mixer_calls s' = mixer_calls s"
  using assms
  by (auto simp: display_update_def Let_def split: sum.splits if_splits)

lemma display_update_caught_frame:
  "selected (display_update_caught e now s) = selected s"
  "playing (display_update_caught e now s) = playing s"
  "songs (display_update_caught e now s) = songs s"
  "current_volume (display_update_caught e now s) = current_volume s"
  "mixer_volume (display_update_caught e now s) = mixer_volume s"
  "press_count (display_update_caught e now s) = press_count s"
  "events (display_update_caught e now s) = events s"
  "last_states (display_update_caught e now s) = last_states s"
  "last_sw (display_update_caught e now s) = last_sw s"
  "last_press_time (display_update_caught e now s) = last_press_time s"
  by (auto simp: display_update_caught_def display_update_frame split: sum.splits)

text \<open>What a redraw does to the scroll position, for a selection that is in range.\<close>

lemma display_update_scroll_position:
  assumes "py_index (songs s) (selected s) = Inr track"
  shows "\<exists>s'. display_update e now s = Inr s' \<and>
     scroll_position s' =
       (if textlength e track > real_of_int (OLED_WIDTH - 30) \<and> length track \<noteq> 0 \<and>
           now - last_scroll_time s > 0.3
        then (scroll_position s + 1) mod int (length track) else scroll_position s)"
  using assms by (simp add: display_update_def Let_def)

lemma display_update_caught_scroll:
  assumes "py_index (songs s) (selected s) = Inr track"
  shows "scroll_position (display_update_caught e now s) =
       (if textlength e track > real_of_int (OLED_WIDTH - 30) \<and> length track \<noteq> 0 \<and>
           now - last_scroll_time s > 0.3
        then (scroll_position s + 1) mod int (length track) else scroll_position s)"
  using display_update_scroll_position [OF assms, of e now]
  by (auto simp: display_update_caught_def)

text \<open>
  C6. Let the selected track name \<open>track\<close>, of length \<open>L\<close>, be wider than the display width
  minus the 30 pixels kept for the battery, and let the scroll position \<open>p\<close> be in
  \<open>[0, L)\<close>. A redraw at clock \<open>now\<close> succeeds; it advances the scroll position to
  \<open>(p + 1) mod L\<close> and stamps the advance exactly when more than 0.3 s have passed since the
  last advance, and leaves it at \<open>p\<close> otherwise; the title it draws is the fifteen characters
  \<open>track[(q + i) mod L]\<close>, \<open>i = 0..14\<close>, for the position \<open>q\<close> it leaves, which stays in
  \<open>[0, L)\<close>.
\<close>

theorem display_update_scroll:
  assumes "py_index (songs s) (selected s) = Inr track"
    and "textlength e track > real_of_int (OLED_WIDTH - 30)"
    and "0 \<le> scroll_position s" and "scroll_position s < int (length track)"
  shows "\<exists>s'. display_update e now s = Inr s' \<and>
     scroll_position s' =
       (if now - last_scroll_time s > 0.3
        then (scroll_position s + 1) mod int (length track) else scroll_position s) \<and>
     last_scroll_time s' = (if now - last_scroll_time s > 0.3 then now else last_scroll_time s) \<and>
     oled_title s' =
       map (\<lambda>i. track ! nat ((scroll_position s' + int i) mod int (length track))) [0..<15] \<and>
     0 \<le> scroll_position s' \<and> scroll_position s' < int (length track)"
proof -
  from assms(3,4) have L: "length track \<noteq> 0" by auto
  show ?thesis
    using assms L by (simp add: display_update_def Let_def scroll_window_map)
qed

theorem display_update_scroll_witness:
  "py_index (songs last_selected_example) (selected last_selected_example) =
     Inr ''LongTrackTitleNameHere.mp3'' \<and>
   textlength env_example ''LongTrackTitleNameHere.mp3'' > real_of_int (OLED_WIDTH - 30) \<and>
   0 \<le> scroll_position last_selected_example \<and>
   scroll_position last_selected_example < int (length ''LongTrackTitleNameHere.mp3'') \<and>
   (\<exists>s'. display_update env_example 1 last_selected_example = Inr s' \<and>
      scroll_position s' = 21 \<and> last_scroll_time s' = 1 \<and> oled_title s' = ''e.mp3LongTrackT'')"
proof -
  have h: "py_index (songs last_selected_example) (selected last_selected_example) =
      Inr ''LongTrackTitleNameHere.mp3''"
    "textlength env_example ''LongTrackTitleNameHere.mp3'' > real_of_int (OLED_WIDTH - 30)"
    "0 \<le> scroll_position last_selected_example"
    "scroll_position last_selected_example < int (length ''LongTrackTitleNameHere.mp3'')"
    by (simp_all add: last_selected_example_def idle_example_def init_player_def
        catalog_example_def py_index_def env_example_def seven_pixels_def OLED_WIDTH_def)
  have v: "scroll_position last_selected_example = 20" "last_scroll_time last_selected_example = 0"
    by (simp_all add: last_selected_example_def idle_example_def init_player_def)
  have w: "map (\<lambda>i. ''LongTrackTitleNameHere.mp3'' ! nat ((21 + int i) mod 26)) [0..<15] =
      ''e.mp3LongTrackT''"
    by code_simp
  from display_update_scroll [OF h, of 1] obtain s' where
    "display_update env_example 1 last_selected_example = Inr s'"
    "scroll_position s' = 21" "last_scroll_time s' = 1"
    "oled_title s' =
       map (\<lambda>i. ''LongTrackTitleNameHere.mp3'' ! nat ((scroll_position s' + int i) mod 26)) [0..<15]"
    by (auto simp: v)
  then show ?thesis using h w by simp
qed

subsection \<open>Skipping\<close>

text \<open>
  C5 as stated fails in its scroll clause: \<open>skip_track\<close> clears the scroll position and then
  redraws (line 411); the new title is wide and the last advance is more than 0.3 s old, so
  the redraw advances the position, and \<open>skip_track\<close> returns with position 1.
\<close>

theorem skip_track_scroll_counterexample:
  "songs idle_example \<noteq> [] \<and> scroll_position (skip_track env_example 1 True idle_example) \<noteq> 0"
  by (simp add: skip_track_def env_example_def idle_example_def init_player_def
      catalog_example_def Let_def display_update_caught_def display_update_def py_index_def
      OLED_WIDTH_def seven_pixels_def load_succeeds_def)

text \<open>
  C5, amended. For a catalog of \<open>n > 0\<close> tracks, \<open>skip_track\<close> sets the selected index to
  \<open>(selected + 1) mod n\<close> going forward and \<open>(selected - 1) mod n\<close> going backward, which is
  in \<open>[0, n)\<close>; forward from \<open>n - 1\<close> gives 0 and backward from 0 gives \<open>n - 1\<close>. It clears
  the scroll position before it redraws: on return the position is 0, or \<open>1 mod L\<close> (\<open>L\<close> the
  length of the new title) when the redraw took place (not playing, or the new track
  loaded), the new title is wider than the threshold and more than 0.3 s have passed since
  the last advance.
\<close>

theorem skip_track_wraps:
  assumes "songs s \<noteq> []"
  shows "selected (skip_track e now forward s) =
           (selected s + (if forward then 1 else - 1)) mod int (length (songs s)) \<and>
         0 \<le> selected (skip_track e now forward s) \<and>
         selected (skip_track e now forward s) < int (length (songs s)) \<and>
         (forward \<and> selected s = int (length (songs s)) - 1 \<longrightarrow>
            selected (skip_track e now forward s) = 0) \<and>
         (\<not> forward \<and> selected s = 0 \<longrightarrow>
            selected (skip_track e now forward s) = int (length (songs s)) - 1) \<and>
         scroll_position (skip_track e now forward s) =
           (let track = songs s ! nat (selected (skip_track e now forward s))
            in if (playing s \<longrightarrow> mixer_load_ok e (path_join MUSIC_DIR track)) \<and>
                  textlength e track > real_of_int (OLED_WIDTH - 30) \<and> length track \<noteq> 0 \<and>
                  now - last_scroll_time s > 0.3
               then 1 mod int (length track) else 0)"
proof -
  let ?n = "int (length (songs s))"
  let ?sel = "(selected s + (if forward then 1 else - 1)) mod ?n"
  let ?track = "songs s ! nat ?sel"
  from assms have n: "0 < ?n" by simp
  then have r: "0 \<le> ?sel" "?sel < ?n" by simp_all
  define s1 where "s1 = s\<lparr>events := events s @ [SkipTrackCalled forward], scroll_position := 0,
      selected := ?sel\<rparr>"
  have idx: "py_index (songs s1) (selected s1) = Inr ?track"
    using r by (simp add: s1_def py_index_in_range)
  have sk: "skip_track e now forward s =
     (if playing s then
        (if mixer_load_ok e (path_join MUSIC_DIR ?track)
         then display_update_caught e now
                (s1\<lparr>current_song_path := Some (path_join MUSIC_DIR ?track),
                    mixer_calls := mixer_calls s1 @ [Load (path_join MUSIC_DIR ?track), Play]\<rparr>)
         else s1\<lparr>current_song_path := Some (path_join MUSIC_DIR ?track)\<rparr>)
      else display_update_caught e now s1)"
    using assms by (simp add: skip_track_def Let_def s1_def)
  have sel: "selected (skip_track e now forward s) = ?sel"
    unfolding sk by (simp add: display_update_caught_frame) (simp add: s1_def)
  have scr: "scroll_position (skip_track e now forward s) =
      (if (playing s \<longrightarrow> mixer_load_ok e (path_join MUSIC_DIR ?track)) \<and>
          textlength e ?track > real_of_int (OLED_WIDTH - 30) \<and> length ?track \<noteq> 0 \<and>
          now - last_scroll_time s > 0.3
       then 1 mod int (length ?track) else 0)"
    unfolding sk using idx
    by (simp add: display_update_caught_scroll [where track = ?track]) (simp add: s1_def)
  have w1: "forward \<and> selected s = ?n - 1 \<longrightarrow> ?sel = 0" by simp
  have w2: "\<not> forward \<and> selected s = 0 \<longrightarrow> ?sel = ?n - 1"
    using n by (simp add: zmod_minus1)
  show ?thesis
    unfolding Let_def sel using r w1 w2 scr [unfolded sel] by simp
qed

theorem skip_track_wraps_witness:
  "songs last_selected_example \<noteq> [] \<and>
   selected last_selected_example = int (length (songs last_selected_example)) - 1 \<and>
   selected (skip_track env_example 1 True last_selected_example) = 0 \<and>
   scroll_position (skip_track env_example 1 True last_selected_example) = 0 \<and>
   songs idle_example \<noteq> [] \<and> selected idle_example = 0 \<and>
   selected (skip_track env_example 1 False idle_example) = 1 \<and>
   scroll_position (skip_track env_example 1 False idle_example) = 1"
proof -
  have a: "songs last_selected_example = catalog_example" "selected last_selected_example = 1"
    "\<not> playing last_selected_example" "last_scroll_time last_selected_example = 0"
    by (simp_all add: last_selected_example_def idle_example_def init_player_def)
  have b: "songs idle_example = catalog_example" "selected idle_example = 0"
    "\<not> playing idle_example" "last_scroll_time idle_example = 0"
    by (simp_all add: idle_example_def init_player_def)
  have c: "catalog_example \<noteq> []" "length catalog_example = 2"
    "catalog_example ! 0 = ''a.mp3''" "catalog_example ! Suc 0 = ''LongTrackTitleNameHere.mp3''"
    by (simp_all add: catalog_example_def)
  have na: "songs last_selected_example \<noteq> []" and nb: "songs idle_example \<noteq> []"
    by (simp_all add: a b c)
  show ?thesis
    using skip_track_wraps [OF na, of env_example 1 True]
      skip_track_wraps [OF nb, of env_example 1 False]
    by (simp add: a b c Let_def env_example_def seven_pixels_def OLED_WIDTH_def)
qed

subsection \<open>Rotation decoding\<close>

lemma record_state_frame:
  "events (record_state a b s) = events s" "playing (record_state a b s) = playing s"
  "songs (record_state a b s) = songs s" "selected (record_state a b s) = selected s"
  "current_volume (record_state a b s) = current_volume s"
  "mixer_volume (record_state a b s) = mixer_volume s"
  "scroll_position (record_state a b s) = scroll_position s"
  "last_scroll_time (record_state a b s) = last_scroll_time s"
  "press_count (record_state a b s) = press_count s"
  "last_sw (record_state a b s) = last_sw s"
  "last_press_time (record_state a b s) = last_press_time s"
  by (simp_all add: record_state_def Let_def)

lemma clockwise_step_Inr:
  assumes "songs s \<noteq> []"
  shows "\<exists>s1. clockwise_step s = Inr s1 \<and>
     events s1 = events s @ [StepClockwise] \<and> encoder_count s1 = encoder_count s + 1 \<and>
     last_states s1 = last_states s \<and> songs s1 = songs s \<and> playing s1 = playing s \<and>
     last_scroll_time s1 = last_scroll_time s \<and>
     selected s1 = (if playing s then selected s
                    else (selected s + 1) mod int (length (songs s))) \<and>
     scroll_position s1 = (if playing s then scroll_position s else 0) \<and>
     current_volume s1 = (if playing s then min 1.0 (current_volume s + 0.01)
                          else current_volume s) \<and>
     mixer_volume s1 = (if playing s then min 1.0 (current_volume s + 0.01) / 2
                        else mixer_volume s)"
  using assms by (simp add: clockwise_step_def Let_def)

lemma counter_clockwise_step_Inr:
  assumes "songs s \<noteq> []"
  shows "\<exists>s1. counter_clockwise_step s = Inr s1 \<and>
     events s1 = events s @ [StepCounterClockwise] \<and> encoder_count s1 = encoder_count s + 1 \<and>
     last_states s1 = last_states s \<and> songs s1 = songs s \<and> playing s1 = playing s \<and>
     last_scroll_time s1 = last_scroll_time s \<and>
     selected s1 = (if playing s then selected s
                    else (selected s - 1) mod int (length (songs s))) \<and>
     scroll_position s1 = (if playing s then scroll_position s else 0) \<and>
     current_volume s1 = (if playing s then max 0.0 (current_volume s - 0.01)
                          else current_volume s) \<and>
     mixer_volume s1 = (if playing s then max 0.0 (current_volume s - 0.01) / 2
                        else mixer_volume s)"
  using assms by (simp add: counter_clockwise_step_def Let_def)

text \<open>
  A recognised step followed by its redraw, for a selection in range: the fields after the
  whole step, in terms of the fields \<open>s1\<close> that the branch of the step produced.
\<close>

lemma finish_step_fields:
  assumes "0 \<le> selected s1" and "selected s1 < int (length (songs s1))"
  shows "\<exists>s'. finish_step e now (Inr s1) = Inr s' \<and>
     events s' = events s1 \<and> encoder_count s' = encoder_count s1 \<and>
     last_states s' = [last (last_states s1)] \<and> songs s' = songs s1 \<and>
     playing s' = playing s1 \<and> selected s' = selected s1 \<and>
     current_volume s' = current_volume s1 \<and> mixer_volume s' = mixer_volume s1 \<and>
     press_count s' = press_count s1 \<and> last_sw s' = last_sw s1 \<and>
     last_press_time s' = last_press_time s1 \<and>
     scroll_position s' =
       (let track = songs s1 ! nat (selected s1)
        in if textlength e track > real_of_int (OLED_WIDTH - 30) \<and> length track \<noteq> 0 \<and>
              now - last_scroll_time s1 > 0.3
           then (scroll_position s1 + 1) mod int (length track) else scroll_position s1)"
proof -
  have idx: "py_index (songs s1) (selected s1) = Inr (songs s1 ! nat (selected s1))"
    using assms by (rule py_index_in_range)
  from display_update_scroll_position [OF idx, of e now] obtain s2 where
    d: "display_update e now s1 = Inr s2" and
    p: "scroll_position s2 =
       (if textlength e (songs s1 ! nat (selected s1)) > real_of_int (OLED_WIDTH - 30) \<and>
           length (songs s1 ! nat (selected s1)) \<noteq> 0 \<and> now - last_scroll_time s1 > 0.3
        then (scroll_position s1 + 1) mod int (length (songs s1 ! nat (selected s1)))
        else scroll_position s1)"
    by blast
  have "finish_step e now (Inr s1) = Inr (s2\<lparr>last_states := [last (last_states s1)]\<rparr>)"
    using d by (simp add: finish_step_def display_update_frame [OF d])
  then show ?thesis
    using p by (simp add: display_update_frame [OF d] Let_def)
qed

text \<open>
  One call of the rotary part, for a selection in range, in terms of the buffer as the code
  records it: a recognised buffer emits its one step and collapses, any other buffer is
  kept and nothing is emitted, and an unchanged sample changes nothing.
\<close>

lemma rotary_step_recorded:
  assumes "0 \<le> selected s" and "selected s < int (length (songs s))"
  shows
    "((a \<noteq> last_a s \<or> b \<noteq> last_b s) \<and> last_states (record_state a b s) = [(1, 1), (1, 0)] \<longrightarrow>
       (\<exists>s'. rotary_step e now a b s = Inr s' \<and> events s' = events s @ [StepClockwise] \<and>
             encoder_count s' = encoder_count s + 1 \<and> last_states s' = [(1, 0)] \<and>
             songs s' = songs s \<and> 0 \<le> selected s' \<and> selected s' < int (length (songs s)))) \<and>
    ((a \<noteq> last_a s \<or> b \<noteq> last_b s) \<and> last_states (record_state a b s) = [(1, 1), (0, 1)] \<longrightarrow>
       (\<exists>s'. rotary_step e now a b s = Inr s' \<and> events s' = events s @ [StepCounterClockwise] \<and>
             encoder_count s' = encoder_count s + 1 \<and> last_states s' = [(0, 1)] \<and>
             songs s' = songs s \<and> 0 \<le> selected s' \<and> selected s' < int (length (songs s)))) \<and>
    ((a \<noteq> last_a s \<or> b \<noteq> last_b s) \<and> last_states (record_state a b s) \<noteq> [(1, 1), (1, 0)] \<and>
     last_states (record_state a b s) \<noteq> [(1, 1), (0, 1)] \<longrightarrow>
       rotary_step e now a b s = Inr (record_state a b s) \<and>
       events (record_state a b s) = events s \<and>
       encoder_count (record_state a b s) = encoder_count s) \<and>
    (a = last_a s \<and> b = last_b s \<longrightarrow> rotary_step e now a b s = Inr s)"
proof (intro conjI impI)
  let ?r = "record_state a b s"
  have ne: "songs ?r \<noteq> []" using assms by (auto simp: record_state_frame)
  have n: "0 < int (length (songs s))" using assms by linarith
  {
    assume h: "(a \<noteq> last_a s \<or> b \<noteq> last_b s) \<and> last_states ?r = [(1, 1), (1, 0)]"
    from clockwise_step_Inr [OF ne] obtain s1 where
      c: "clockwise_step ?r = Inr s1" and
      f: "events s1 = events s @ [StepClockwise]" "encoder_count s1 = encoder_count ?r + 1"
         "last_states s1 = last_states ?r" "songs s1 = songs s"
         "selected s1 = (if playing ?r then selected s
                    else (selected s + 1) mod int (length (songs s)))"
      by (auto simp: record_state_frame)
    have r: "0 \<le> selected s1" "selected s1 < int (length (songs s1))"
      using assms n by (simp_all add: f)
    from finish_step_fields [OF r, of e now] obtain s' where
      "finish_step e now (Inr s1) = Inr s'" "events s' = events s1"
      "encoder_count s' = encoder_count s1" "last_states s' = [last (last_states s1)]"
      "songs s' = songs s1" "selected s' = selected s1"
      by blast
    moreover have "rotary_step e now a b s = finish_step e now (clockwise_step ?r)"
      using h by (simp add: rotary_step_def Let_def)
    moreover have "encoder_count ?r = encoder_count s"
      by (simp add: record_state_def Let_def)
    ultimately show "\<exists>s'. rotary_step e now a b s = Inr s' \<and>
        events s' = events s @ [StepClockwise] \<and>
        encoder_count s' = encoder_count s + 1 \<and> last_states s' = [(1, 0)] \<and>
        songs s' = songs s \<and> 0 \<le> selected s' \<and> selected s' < int (length (songs s))"
      using c f h r by simp
  }
  {
    assume h: "(a \<noteq> last_a s \<or> b \<noteq> last_b s) \<and> last_states ?r = [(1, 1), (0, 1)]"
    from counter_clockwise_step_Inr [OF ne] obtain s1 where
      c: "counter_clockwise_step ?r = Inr s1" and
      f: "events s1 = events s @ [StepCounterClockwise]" "encoder_count s1 = encoder_count ?r + 1"
         "last_states s1 = last_states ?r" "songs s1 = songs s"
         "selected s1 = (if playing ?r then selected s
                    else (selected s - 1) mod int (length (songs s)))"
      by (auto simp: record_state_frame)
    have r: "0 \<le> selected s1" "selected s1 < int (length (songs s1))"
      using assms n by (simp_all add: f)
    from finish_step_fields [OF r, of e now] obtain s' where
      "finish_step e now (Inr s1) = Inr s'" "events s' = events s1"
      "encoder_count s' = encoder_count s1" "last_states s' = [last (last_states s1)]"
      "songs s' = songs s1" "selected s' = selected s1"
      by blast
    moreover have "rotary_step e now a b s = finish_step e now (counter_clockwise_step ?r)"
      using h by (simp add: rotary_step_def Let_def)
    moreover have "encoder_count ?r = encoder_count s"
      by (simp add: record_state_def Let_def)
    ultimately show "\<exists>s'. rotary_step e now a b s = Inr s' \<and>
        events s' = events s @ [StepCounterClockwise] \<and>
        encoder_count s' = encoder_count s + 1 \<and> last_states s' = [(0, 1)] \<and>
        songs s' = songs s \<and> 0 \<le> selected s' \<and> selected s' < int (length (songs s))"
      using c f h r by simp
  }
  {
    assume h: "(a \<noteq> last_a s \<or> b \<noteq> last_b s) \<and> last_states ?r \<noteq> [(1, 1), (1, 0)] \<and>
      last_states ?r \<noteq> [(1, 1), (0, 1)]"
    have two: "length xs = 2 \<Longrightarrow> xs = [xs ! 0, xs ! 1]" for xs :: "(int \<times> int) list"
      by (cases xs; cases "tl xs") auto
    show "rotary_step e now a b s = Inr ?r"
    proof (cases "length (last_states ?r) = 2")
      case True
      from two [OF True] h have "\<not> (last_states ?r ! 0 = (1, 1) \<and> last_states ?r ! 1 = (1, 0))"
        and "\<not> (last_states ?r ! 0 = (1, 1) \<and> last_states ?r ! 1 = (0, 1))"
        by metis+
      with h True show ?thesis by (auto simp: rotary_step_def Let_def)
    next
      case False
      with h show ?thesis by (simp add: rotary_step_def Let_def)
    qed
    show "events ?r = events s" by (simp add: record_state_frame)
    show "encoder_count ?r = encoder_count s" by (simp add: record_state_def Let_def)
  }
  {
    assume "a = last_a s \<and> b = last_b s"
    then show "rotary_step e now a b s = Inr s" by (simp add: rotary_step_def)
  }
qed

subsection \<open>What a recognised step changes\<close>

text \<open>
  C10, amended. Let the selected index be in range and let the sample complete one of the
  two recognised histories. While playing, the step leaves the selected index alone, moves
  the volume by 0.01 within \<open>[0, 1]\<close> (up for clockwise, down for counter-clockwise) and
  forwards half of it; the scroll position is left alone by the step itself, and the redraw
  that ends the step (lines 293, 313) advances it by one modulo the length of the title when
  the title is wider than the threshold and more than 0.3 s have passed since the last
  advance. While not playing, the volume and the forwarded volume are unchanged, the
  selected index moves by one modulo the length of the catalog, and the scroll position is
  cleared before the redraw, so that it ends at 0, or at \<open>1 mod L\<close> when the redraw advances
  it for the newly selected title of length \<open>L\<close>. No step changes both the volume and
  the selection.
\<close>

theorem rotary_step_dispatch:
  assumes "0 \<le> selected s" and "selected s < int (length (songs s))"
    and "a \<noteq> last_a s \<or> b \<noteq> last_b s"
    and "last_states (record_state a b s) = [(1, 1), (1, 0)] \<or>
         last_states (record_state a b s) = [(1, 1), (0, 1)]"
  shows "\<exists>s'. rotary_step e now a b s = Inr s' \<and>
     (playing s \<longrightarrow>
        selected s' = selected s \<and>
        current_volume s' =
          (if last_states (record_state a b s) = [(1, 1), (1, 0)]
           then min 1.0 (current_volume s + 0.01) else max 0.0 (current_volume s - 0.01)) \<and>
        mixer_volume s' = current_volume s' / 2 \<and>
        scroll_position s' =
          (let track = songs s ! nat (selected s)
           in if textlength e track > real_of_int (OLED_WIDTH - 30) \<and> length track \<noteq> 0 \<and>
                 now - last_scroll_time s > 0.3
              then (scroll_position s + 1) mod int (length track) else scroll_position s)) \<and>
     (\<not> playing s \<longrightarrow>
        current_volume s' = current_volume s \<and> mixer_volume s' = mixer_volume s \<and>
        selected s' =
          (if last_states (record_state a b s) = [(1, 1), (1, 0)]
           then (selected s + 1) mod int (length (songs s))
           else (selected s - 1) mod int (length (songs s))) \<and>
        scroll_position s' =
          (let track = songs s ! nat (selected s')
           in if textlength e track > real_of_int (OLED_WIDTH - 30) \<and> length track \<noteq> 0 \<and>
                 now - last_scroll_time s > 0.3
              then 1 mod int (length track) else 0)) \<and>
     (current_volume s' = current_volume s \<or> selected s' = selected s)"
proof -
  let ?r = "record_state a b s"
  have ne: "songs ?r \<noteq> []" using assms(1,2) by (auto simp: record_state_frame)
  have n: "0 < int (length (songs s))" using assms(1,2) by linarith
  from assms(4) show ?thesis
  proof
    assume h: "last_states ?r = [(1, 1), (1, 0)]"
    from clockwise_step_Inr [OF ne] obtain s1 where
      c: "clockwise_step ?r = Inr s1" and
      f: "songs s1 = songs s" "playing s1 = playing s" "last_scroll_time s1 = last_scroll_time s"
         "selected s1 = (if playing s then selected s
                    else (selected s + 1) mod int (length (songs s)))"
         "scroll_position s1 = (if playing s then scroll_position s else 0)"
         "current_volume s1 = (if playing s then min 1.0 (current_volume s + 0.01)
                          else current_volume s)"
         "mixer_volume s1 = (if playing s then min 1.0 (current_volume s + 0.01) / 2
                        else mixer_volume s)"
      by (auto simp: record_state_frame)
    have r: "0 \<le> selected s1" "selected s1 < int (length (songs s1))"
      using assms(1,2) n by (simp_all add: f)
    have st: "rotary_step e now a b s = finish_step e now (Inr s1)"
      using h assms(3) c by (simp add: rotary_step_def Let_def)
    from finish_step_fields [OF r, of e now] obtain s' where
      "finish_step e now (Inr s1) = Inr s'" "selected s' = selected s1"
      "current_volume s' = current_volume s1" "mixer_volume s' = mixer_volume s1"
      "scroll_position s' =
       (let track = songs s1 ! nat (selected s1)
        in if textlength e track > real_of_int (OLED_WIDTH - 30) \<and> length track \<noteq> 0 \<and>
              now - last_scroll_time s1 > 0.3
           then (scroll_position s1 + 1) mod int (length track) else scroll_position s1)"
      by blast
    then show ?thesis
      unfolding st using h by (auto simp: f Let_def)
  next
    assume h: "last_states ?r = [(1, 1), (0, 1)]"
    from counter_clockwise_step_Inr [OF ne] obtain s1 where
      c: "counter_clockwise_step ?r = Inr s1" and
      f: "songs s1 = songs s" "playing s1 = playing s" "last_scroll_time s1 = last_scroll_time s"
         "selected s1 = (if playing s then selected s
                    else (selected s - 1) mod int (length (songs s)))"
         "scroll_position s1 = (if playing s then scroll_position s else 0)"
         "current_volume s1 = (if playing s then max 0.0 (current_volume s - 0.01)
                          else current_volume s)"
         "mixer_volume s1 = (if playing s then max 0.0 (current_volume s - 0.01) / 2
                        else mixer_volume s)"
      by (auto simp: record_state_frame)
    have r: "0 \<le> selected s1" "selected s1 < int (length (songs s1))"
      using assms(1,2) n by (simp_all add: f)
    have st: "rotary_step e now a b s = finish_step e now (Inr s1)"
      using h assms(3) c by (simp add: rotary_step_def Let_def)
    from finish_step_fields [OF r, of e now] obtain s' where
      "finish_step e now (Inr s1) = Inr s'" "selected s' = selected s1"
      "current_volume s' = current_volume s1" "mixer_volume s' = mixer_volume s1"
      "scroll_position s' =
       (let track = songs s1 ! nat (selected s1)
        in if textlength e track > real_of_int (OLED_WIDTH - 30) \<and> length track \<noteq> 0 \<and>
              now - last_scroll_time s1 > 0.3
           then (scroll_position s1 + 1) mod int (length track) else scroll_position s1)"
      by blast
    then show ?thesis
      unfolding st using h by (auto simp: f Let_def)
  qed
qed

text \<open>
  C10 as stated fails in its scroll clause: while the long title plays at scroll position
  20, a clockwise step at clock 1 (the last advance was at clock 0) ends with position 21.
\<close>

theorem rotary_step_scroll_counterexample:
  "playing playing_example \<and> last_states (record_state 1 0 playing_example) = [(1, 1), (1, 0)] \<and>
   scroll_position playing_example = 20 \<and>
   map_sum id scroll_position (rotary_step env_example 1 1 0 playing_example) = Inr 21"
  by (simp add: playing_example_def last_selected_example_def idle_example_def init_player_def
      catalog_example_def env_example_def seven_pixels_def rotary_step_def record_state_def
      clockwise_step_def finish_step_def display_update_def py_index_def OLED_WIDTH_def Let_def)

theorem rotary_step_dispatch_witness:
  "0 \<le> selected playing_example \<and>
   selected playing_example < int (length (songs playing_example)) \<and>
   last_b playing_example = 1 \<and>
   last_states (record_state 1 0 playing_example) = [(1, 1), (1, 0)] \<and> playing playing_example \<and>
   (\<exists>s'. rotary_step env_example 1 1 0 playing_example = Inr s' \<and> selected s' = 1 \<and>
      current_volume s' = 0.03 \<and> mixer_volume s' = 0.015 \<and> scroll_position s' = 21) \<and>
   0 \<le> selected detent_example \<and> selected detent_example < int (length (songs detent_example)) \<and>
   last_a detent_example = 1 \<and>
   last_states (record_state 0 1 detent_example) = [(1, 1), (0, 1)] \<and> \<not> playing detent_example \<and>
   (\<exists>s'. rotary_step env_example 1 0 1 detent_example = Inr s' \<and> selected s' = 1 \<and>
      current_volume s' = 0.02 \<and> mixer_volume s' = 0.01 \<and> scroll_position s' = 1)"
proof -
  have p: "selected playing_example = 1" "songs playing_example = catalog_example"
    "last_a playing_example = 1" "last_b playing_example = 1" "playing playing_example"
    "last_states playing_example = [(0, 1), (1, 1)]" "current_volume playing_example = 0.02"
    "scroll_position playing_example = 20" "last_scroll_time playing_example = 0"
    by (simp_all add: playing_example_def last_selected_example_def idle_example_def
        init_player_def)
  have d: "selected detent_example = 0" "songs detent_example = catalog_example"
    "last_a detent_example = 1" "last_b detent_example = 1" "\<not> playing detent_example"
    "last_states detent_example = [(0, 1), (1, 1)]" "current_volume detent_example = 0.02"
    "mixer_volume detent_example = 0.01" "last_scroll_time detent_example = 0"
    by (simp_all add: detent_example_def idle_example_def init_player_def)
  have c: "length catalog_example = 2" "catalog_example ! Suc 0 = ''LongTrackTitleNameHere.mp3''"
    by (simp_all add: catalog_example_def)
  have rp: "0 \<le> selected playing_example"
    "selected playing_example < int (length (songs playing_example))"
    "1 \<noteq> last_a playing_example \<or> 0 \<noteq> last_b playing_example"
    "last_states (record_state 1 0 playing_example) = [(1, 1), (1, 0)] \<or>
     last_states (record_state 1 0 playing_example) = [(1, 1), (0, 1)]"
    by (simp_all add: p c record_state_def Let_def)
  have rd: "0 \<le> selected detent_example"
    "selected detent_example < int (length (songs detent_example))"
    "0 \<noteq> last_a detent_example \<or> 1 \<noteq> last_b detent_example"
    "last_states (record_state 0 1 detent_example) = [(1, 1), (1, 0)] \<or>
     last_states (record_state 0 1 detent_example) = [(1, 1), (0, 1)]"
    by (simp_all add: d c record_state_def Let_def)
  have h: "last_states (record_state 1 0 playing_example) = [(1, 1), (1, 0)]"
    "last_states (record_state 0 1 detent_example) = [(1, 1), (0, 1)]"
    by (simp_all add: p d record_state_def Let_def)
  show ?thesis
    using rotary_step_dispatch [OF rp, of env_example 1]
      rotary_step_dispatch [OF rd, of env_example 1]
    by (auto simp: p d c h Let_def env_example_def seven_pixels_def OLED_WIDTH_def)
qed

subsection \<open>The button gesture\<close>

text \<open>What the collection loop leaves alone, and what holds of its timer, when it returns.\<close>

lemma collect_presses_frame:
  assumes "collect_presses btn k now ts s = Some r"
  shows "events (snd (snd r)) = events s \<and> playing (snd (snd r)) = playing s \<and>
     songs (snd (snd r)) = songs s \<and> selected (snd (snd r)) = selected s \<and>
     current_volume (snd (snd r)) = current_volume s \<and>
     mixer_volume (snd (snd r)) = mixer_volume s \<and>
     scroll_position (snd (snd r)) = scroll_position s \<and>
     last_scroll_time (snd (snd r)) = last_scroll_time s \<and>
     last_states (snd (snd r)) = last_states s"
proof (rule collect_presses.raw_induct [where P = "\<lambda>btn k now ts s r.
     events (snd (snd r)) = events s \<and> playing (snd (snd r)) = playing s \<and>
     songs (snd (snd r)) = songs s \<and> selected (snd (snd r)) = selected s \<and>
     current_volume (snd (snd r)) = current_volume s \<and>
     mixer_volume (snd (snd r)) = mixer_volume s \<and>
     scroll_position (snd (snd r)) = scroll_position s \<and>
     last_scroll_time (snd (snd r)) = last_scroll_time s \<and>
     last_states (snd (snd r)) = last_states s", OF _ assms], goal_cases)
  case (1 collect_presses btn k now timer_start s r)
  show ?case
  proof (cases "now - timer_start < 0.8")
    case True
    with 1(2) obtain now' ts' s1 where
      rc: "collect_presses btn (Suc k) now' ts' s1 = Some r" and
      s1: "s1 = s\<lparr>last_sw := btn k\<rparr> \<or>
           s1 = s\<lparr>press_count := press_count s + 1, last_press_time := now + 0.18,
                  last_sw := btn k\<rparr>"
      by (auto simp: Let_def split: if_splits)
    from 1(1) [OF rc] s1 show ?thesis by auto
  next
    case False
    with 1(2) show ?thesis by auto
  qed
qed

lemma collect_presses_timer:
  assumes "collect_presses btn k now ts s = Some r"
  shows "fst r - fst (snd r) \<ge> 0.8 \<and>
     (ts = last_press_time s \<longrightarrow> fst (snd r) = last_press_time (snd (snd r))) \<and>
     press_count s \<le> press_count (snd (snd r)) \<and>
     (press_count (snd (snd r)) = press_count s \<longrightarrow> fst (snd r) = ts)"
proof (rule collect_presses.raw_induct [where P = "\<lambda>btn k now ts s r.
     fst r - fst (snd r) \<ge> 0.8 \<and>
     (ts = last_press_time s \<longrightarrow> fst (snd r) = last_press_time (snd (snd r))) \<and>
     press_count s \<le> press_count (snd (snd r)) \<and>
     (press_count (snd (snd r)) = press_count s \<longrightarrow> fst (snd r) = ts)", OF _ assms], goal_cases)
  case (1 collect_presses btn k now timer_start s r)
  show ?case
  proof (cases "now - timer_start < 0.8")
    case True
    show ?thesis
    proof (cases "btn k = 0 \<and> last_sw s = 1")
      case p: True
      with True 1(2) have rc: "collect_presses btn (Suc k) (now + 0.18 + 0.05) (now + 0.18)
          (s\<lparr>press_count := press_count s + 1, last_press_time := now + 0.18,
             last_sw := btn k\<rparr>) = Some r"
        by (simp add: Let_def)
      from 1(1) [OF rc] show ?thesis by auto
    next
      case p: False
      with True 1(2) have rc: "collect_presses btn (Suc k) (now + 0.18 + 0.05) timer_start
          (s\<lparr>last_sw := btn k\<rparr>) = Some r"
        by (auto simp add: Let_def)
      from 1(1) [OF rc] show ?thesis by auto
    qed
  next
    case False
    with 1(2) show ?thesis by auto
  qed
qed

lemma play_pause_frame:
  "events (play_pause e now s) = events s @ [PlayPauseCalled]"
  "press_count (play_pause e now s) = press_count s"
  "current_volume (play_pause e now s) = current_volume s"
  "mixer_volume (play_pause e now s) = mixer_volume s"
  by (simp_all add: play_pause_def Let_def display_update_caught_frame split: sum.splits)

lemma skip_track_frame:
  "events (skip_track e now forward s) = events s @ [SkipTrackCalled forward]"
  "press_count (skip_track e now forward s) = press_count s"
  "current_volume (skip_track e now forward s) = current_volume s"
  "mixer_volume (skip_track e now forward s) = mixer_volume s"
  by (simp_all add: skip_track_def Let_def display_update_caught_frame)

lemma process_presses_fields:
  "press_count (process_presses e now s) = 0"
  "current_volume (process_presses e now s) = current_volume s"
  "mixer_volume (process_presses e now s) = mixer_volume s"
  "events (process_presses e now s) = events s @
     (if press_count s = 1 then [PlayPauseCalled]
      else if press_count s = 2 \<and> playing s then [SkipTrackCalled True]
      else if press_count s = 3 \<and> playing s then [SkipTrackCalled False]
      else [])"
  by (simp_all add: process_presses_def Let_def play_pause_frame skip_track_frame)

lemma register_press_frame:
  "events (register_press now s) = events s" "playing (register_press now s) = playing s"
  "current_volume (register_press now s) = current_volume s"
  "mixer_volume (register_press now s) = mixer_volume s"
  "last_sw (register_press now s) = last_sw s"
  "last_press_time (register_press now s) = now"
  by (simp_all add: register_press_def Let_def)

text \<open>
  C2. Let a press start a collection window (the button line falls and the registered count
  is 1), and let the window end in the state \<open>w\<close>, with press count \<open>n\<close> and playing flag
  \<open>p\<close> (the flag the press found). Then the tick returns, the events \<open>d\<close> it adds are
  \<open>[PlayPauseCalled]\<close> iff \<open>n = 1\<close>, \<open>[SkipTrackCalled True]\<close> iff \<open>n = 2\<close> and \<open>p\<close>,
  \<open>[SkipTrackCalled False]\<close> iff \<open>n = 3\<close> and \<open>p\<close>, and nothing in every other case; and
  the press counter is 0 afterwards.
\<close>

theorem button_step_dispatch:
  assumes "sw = 0" and "last_sw s = 1" and "press_count (register_press now s) = 1"
    and "collect_presses btn 0 now now (register_press now s) = Some (t, ts, w)"
  shows "\<exists>s' d. button_step e now sw btn s = Some s' \<and> press_count s' = 0 \<and>
     playing w = playing s \<and> events s' = events s @ d \<and>
     (d = [PlayPauseCalled] \<longleftrightarrow> press_count w = 1) \<and>
     (d = [SkipTrackCalled True] \<longleftrightarrow> press_count w = 2 \<and> playing w) \<and>
     (d = [SkipTrackCalled False] \<longleftrightarrow> press_count w = 3 \<and> playing w) \<and>
     (d = [] \<longleftrightarrow> \<not> (press_count w = 1 \<or> press_count w = 2 \<and> playing w \<or>
                       press_count w = 3 \<and> playing w))"
proof -
  from collect_presses_frame [OF assms(4)]
  have f: "events w = events s" "playing w = playing s"
    by (simp_all add: register_press_frame)
  have b: "button_step e now sw btn s = Some (process_presses e t w)"
    using assms by (simp add: button_step_def Let_def)
  show ?thesis
    unfolding b by (auto simp: process_presses_fields f)
qed

theorem button_step_dispatch_witness:
  "last_sw idle_example = 1 \<and> press_count (register_press 2 idle_example) = 1 \<and>
   collect_presses released 0 2 2 (register_press 2 idle_example) =
     Some (2.92, 2, register_press 2 idle_example) \<and>
   press_count (register_press 2 idle_example) = 1 \<and>
   (\<exists>s'. button_step env_example 2 0 released idle_example = Some s' \<and> press_count s' = 0 \<and>
      events s' = [PlayPauseCalled])"
proof -
  have v: "last_sw idle_example = 1" "events idle_example = []"
    by (simp_all add: idle_example_def init_player_def)
  have c: "press_count (register_press 2 idle_example) = 1"
    by (simp add: register_press_def idle_example_def init_player_def)
  have w: "collect_presses released 0 2 2 (register_press 2 idle_example) =
     Some (2.92, 2, register_press 2 idle_example)"
    by (simp add: collect_presses.simps released_def register_press_def idle_example_def
        init_player_def Let_def)
  show ?thesis
    using button_step_dispatch [OF refl v(1) c w, of env_example] by (auto simp: v c w)
qed

text \<open>
  C7. When the button line falls more than 1.5 s after the previous press, the counter is
  cleared before the press is counted: whatever the counter held, the count is 1 and the
  press time is the clock, and the tick goes on to the collection loop of a new window from
  that state.
\<close>

theorem register_press_stale:
  assumes "sw = 0" and "last_sw s = 1" and "now - last_press_time s > 1.5"
  shows "press_count (register_press now s) = 1 \<and> last_press_time (register_press now s) = now \<and>
     button_step e now sw btn s =
       (case collect_presses btn 0 now now (register_press now s) of
          None \<Rightarrow> None
        | Some (t, ts, w) \<Rightarrow> Some (process_presses e t w))"
  using assms by (simp add: button_step_def register_press_def Let_def)

theorem register_press_stale_witness:
  "last_sw idle_example = 1 \<and> (2::real) - last_press_time idle_example > 1.5 \<and>
   press_count (register_press 2 idle_example) = 1 \<and>
   last_sw stale_example = 1 \<and> press_count stale_example = 2 \<and>
   (2::real) - last_press_time stale_example > 1.5 \<and>
   press_count (register_press 2 stale_example) = 1 \<and>
   last_press_time (register_press 2 stale_example) = 2"
proof -
  have a: "last_sw idle_example = 1" "(2::real) - last_press_time idle_example > 1.5"
    by (simp_all add: idle_example_def init_player_def)
  have b: "last_sw stale_example = 1" "(2::real) - last_press_time stale_example > 1.5"
    "press_count stale_example = 2"
    by (simp_all add: stale_example_def idle_example_def init_player_def)
  show ?thesis
    using register_press_stale [OF refl a, of env_example released]
      register_press_stale [OF refl b(1,2), of env_example released] a b
    by simp
qed

subsection \<open>Duration of the collection phase\<close>

text \<open>An iteration of the loop in which no press is registered.\<close>

lemma collect_presses_quiet:
  assumes "now - ts < 0.8" and "btn k \<noteq> 0"
  shows "collect_presses btn k now ts s =
     collect_presses btn (Suc k) (now + 0.23) ts (s\<lparr>last_sw := btn k\<rparr>)"
  using assms by (subst collect_presses.simps) (simp add: Let_def add.assoc)

lemma collect_presses_step:
  assumes "now - ts < 0.8"
  shows "\<exists>now' ts' s'. collect_presses btn k now ts s =
     collect_presses btn (Suc k) now' ts' s'"
  using assms by (subst collect_presses.simps) (auto simp: Let_def)

lemma collect_presses_exit:
  assumes "\<not> now - ts < 0.8"
  shows "collect_presses btn k now ts s = Some (now, ts, s)"
  using assms by (subst collect_presses.simps) simp

text \<open>Once the button stays up, the loop ends.\<close>

lemma collect_presses_ends_quiet:
  assumes "\<forall>j\<ge>k. btn j \<noteq> 0" and "0.8 - (now - ts) \<le> 0.23 * real n"
  shows "\<exists>r. collect_presses btn k now ts s = Some r"
  using assms
proof (induction n arbitrary: k now s)
  case 0
  then have "\<not> now - ts < 0.8" by simp
  then show ?case by (simp add: collect_presses_exit)
next
  case (Suc n)
  show ?case
  proof (cases "now - ts < 0.8")
    case True
    from Suc.prems(1) have q: "btn k \<noteq> 0" and later: "\<forall>j\<ge>Suc k. btn j \<noteq> 0"
      by auto
    from Suc.prems(2) have "0.8 - (now + 0.23 - ts) \<le> 0.23 * real n"
      by (simp add: algebra_simps)
    from Suc.IH [OF later this, of "s\<lparr>last_sw := btn k\<rparr>"] show ?thesis
      using True q by (simp add: collect_presses_quiet)
  next
    case False
    then show ?thesis by (simp add: collect_presses_exit)
  qed
qed

lemma collect_presses_ends_after:
  assumes "\<forall>j\<ge>m. btn j \<noteq> 0"
  shows "\<exists>r. collect_presses btn k now ts s = Some r"
proof (induction "m - k" arbitrary: k now ts s)
  case 0
  then have q: "\<forall>j\<ge>k. btn j \<noteq> 0" using assms by simp
  obtain n where "(0.8 - (now - ts)) / 0.23 \<le> real n"
    using real_arch_simple by blast
  then have "0.8 - (now - ts) \<le> 0.23 * real n"
    by (simp add: field_simps)
  from collect_presses_ends_quiet [OF q this] show ?case .
next
  case (Suc d)
  then have d: "d = m - Suc k" by simp
  show ?case
  proof (cases "now - ts < 0.8")
    case True
    from collect_presses_step [OF True, of btn k s] obtain now' ts' s' where
      "collect_presses btn k now ts s = collect_presses btn (Suc k) now' ts' s'"
      by blast
    with Suc.hyps(1) [OF d, of now' ts' s'] show ?thesis
      by auto
  next
    case False
    then show ?thesis by (simp add: collect_presses_exit)
  qed
qed

lemma collect_presses_press:
  assumes "now - ts < 0.8" and "btn k = 0" and "last_sw s = 1"
  shows "collect_presses btn k now ts s =
     collect_presses btn (Suc k) (now + 0.23) (now + 0.18)
       (s\<lparr>press_count := press_count s + 1, last_press_time := now + 0.18, last_sw := 0\<rparr>)"
  using assms by (subst collect_presses.simps) (simp add: Let_def add.assoc)

text \<open>
  C3 as stated fails: a window that starts at clock 2 and sees the line fall once more, at
  its second reading, ends at clock 3.38, that is 1.38 s after it began.
\<close>

theorem collect_presses_window_counterexample:
  "map_option fst (collect_presses second_press 0 2 2 pressed_example) = Some 3.38 \<and>
   \<not> ((3.38::real) - 2 \<le> 0.8)"
  by (simp add: collect_presses.simps second_press_def pressed_example_def register_press_def
      idle_example_def init_player_def Let_def)

text \<open>
  C3, amended. The collection loop ends only by elapsing its duration: when it returns, at
  least 0.8 s have passed since its timer was last started, and that start is the time of
  the last press counted (it is the start of the window when no press was counted inside).
  An additional press restarts the timer at the clock of its reading, so it extends the
  phase. Inactivity neither ends the phase early nor extends it: with the line up at the
  four readings after the window starts, the loop makes four passes of 0.23 s and returns
  0.92 s after the start. The loop returns whenever the line stays up from some reading on.
\<close>

theorem collect_presses_duration:
  "(collect_presses btn k now ts s = Some (t', ts', s') \<longrightarrow>
      t' - ts' \<ge> 0.8 \<and> (ts = last_press_time s \<longrightarrow> ts' = last_press_time s') \<and>
      (press_count s' = press_count s \<longrightarrow> ts' = ts)) \<and>
   (now - ts < 0.8 \<and> btn k = 0 \<and> last_sw s = 1 \<longrightarrow>
      collect_presses btn k now ts s =
        collect_presses btn (Suc k) (now + 0.23) (now + 0.18)
          (s\<lparr>press_count := press_count s + 1, last_press_time := now + 0.18,
             last_sw := 0\<rparr>)) \<and>
   ((\<forall>j<4. btn (k + j) \<noteq> 0) \<longrightarrow>
      collect_presses btn k now now s = Some (now + 0.92, now, s\<lparr>last_sw := btn (k + 3)\<rparr>)) \<and>
   ((\<forall>j\<ge>m. btn j \<noteq> 0) \<longrightarrow> (\<exists>r. collect_presses btn k now ts s = Some r))"
proof -
  have c1: "collect_presses btn k now ts s = Some (t', ts', s') \<longrightarrow>
      t' - ts' \<ge> 0.8 \<and> (ts = last_press_time s \<longrightarrow> ts' = last_press_time s') \<and>
      (press_count s' = press_count s \<longrightarrow> ts' = ts)"
  proof
    assume "collect_presses btn k now ts s = Some (t', ts', s')"
    from collect_presses_timer [OF this]
    show "t' - ts' \<ge> 0.8 \<and> (ts = last_press_time s \<longrightarrow> ts' = last_press_time s') \<and>
      (press_count s' = press_count s \<longrightarrow> ts' = ts)"
      by simp
  qed
  have c2: "now - ts < 0.8 \<and> btn k = 0 \<and> last_sw s = 1 \<longrightarrow>
      collect_presses btn k now ts s =
        collect_presses btn (Suc k) (now + 0.23) (now + 0.18)
          (s\<lparr>press_count := press_count s + 1, last_press_time := now + 0.18,
             last_sw := 0\<rparr>)"
    by (simp add: collect_presses_press)
  have c3: "(\<forall>j<4. btn (k + j) \<noteq> 0) \<longrightarrow>
      collect_presses btn k now now s = Some (now + 0.92, now, s\<lparr>last_sw := btn (k + 3)\<rparr>)"
  proof
    assume q: "\<forall>j<4. btn (k + j) \<noteq> 0"
    have b: "btn k \<noteq> 0" "btn (Suc k) \<noteq> 0" "btn (Suc (Suc k)) \<noteq> 0"
      "btn (Suc (Suc (Suc k))) \<noteq> 0"
      using q [rule_format, of 0] q [rule_format, of 1] q [rule_format, of 2]
        q [rule_format, of 3]
      by (simp_all add: numeral_3_eq_3)
    have e: "k + 3 = Suc (Suc (Suc k))" by simp
    have "collect_presses btn k now now s =
        collect_presses btn (Suc k) (now + 0.23) now (s\<lparr>last_sw := btn k\<rparr>)"
      using b by (simp add: collect_presses_quiet)
    also have "\<dots> = collect_presses btn (Suc (Suc k)) (now + 0.23 + 0.23) now
        (s\<lparr>last_sw := btn (Suc k)\<rparr>)"
      using b by (simp add: collect_presses_quiet)
    also have "\<dots> = collect_presses btn (Suc (Suc (Suc k))) (now + 0.23 + 0.23 + 0.23) now
        (s\<lparr>last_sw := btn (Suc (Suc k))\<rparr>)"
      using b by (simp add: collect_presses_quiet)
    also have "\<dots> = collect_presses btn (Suc (Suc (Suc (Suc k))))
        (now + 0.23 + 0.23 + 0.23 + 0.23) now (s\<lparr>last_sw := btn (Suc (Suc (Suc k)))\<rparr>)"
      using b by (simp add: collect_presses_quiet)
    also have "\<dots> = Some (now + 0.92, now, s\<lparr>last_sw := btn (k + 3)\<rparr>)"
      by (simp add: collect_presses_exit e)
    finally show "collect_presses btn k now now s =
        Some (now + 0.92, now, s\<lparr>last_sw := btn (k + 3)\<rparr>)" .
  qed
  have c4: "(\<forall>j\<ge>m. btn j \<noteq> 0) \<longrightarrow> (\<exists>r. collect_presses btn k now ts s = Some r)"
    using collect_presses_ends_after [of m btn k now ts s] by blast
  show ?thesis
    by (intro conjI c1 c2 c3 c4)
qed

theorem collect_presses_duration_witness:
  "collect_presses second_press 0 2 2 pressed_example = Some (3.38, 2.41, second_press_end) \<and>
   (3.38::real) - 2.41 \<ge> 0.8 \<and> last_press_time pressed_example = 2 \<and>
   last_press_time second_press_end = 2.41 \<and>
   collect_presses released 0 2 2 pressed_example = Some (2.92, 2, pressed_example) \<and>
   collect_presses held 0 2 2 pressed_example = collect_presses held 1 2.23 2.18 held_first_pass \<and>
   (\<exists>r. collect_presses released 0 2 2 pressed_example = Some r)"
proof -
  have v: "last_press_time pressed_example = 2" "press_count pressed_example = 1"
    "last_sw pressed_example = 1"
    by (simp_all add: pressed_example_def register_press_def idle_example_def init_player_def)
  have run: "collect_presses second_press 0 2 2 pressed_example =
      Some (3.38, 2.41, second_press_end)"
    by (simp add: collect_presses.simps second_press_def second_press_end_def v Let_def)
  have q: "\<forall>j<4. released (0 + j) \<noteq> 0" and q': "\<forall>j\<ge>0. released j \<noteq> 0"
    by (simp_all add: released_def)
  have h: "(2::real) - 2 < 0.8 \<and> held 0 = 0 \<and> last_sw pressed_example = 1"
    by (simp add: held_def v)
  have a: "(3.38::real) - 2.41 \<ge> 0.8 \<and>
      ((2::real) = last_press_time pressed_example \<longrightarrow> 2.41 = last_press_time second_press_end)"
    using collect_presses_duration [where btn = second_press and k = 0 and now = 2 and ts = 2
        and s = pressed_example and t' = "3.38" and ts' = "2.41" and s' = second_press_end] run
    by blast
  have b: "collect_presses released 0 2 2 pressed_example =
      Some (2 + 0.92, 2, pressed_example\<lparr>last_sw := released (0 + 3)\<rparr>)"
    using collect_presses_duration [where btn = released and k = 0 and now = 2
        and s = pressed_example] q by blast
  have c: "collect_presses held 0 2 2 pressed_example =
      collect_presses held (Suc 0) (2 + 0.23) (2 + 0.18)
        (pressed_example\<lparr>press_count := press_count pressed_example + 1,
           last_press_time := 2 + 0.18, last_sw := 0\<rparr>)"
    using collect_presses_duration [where btn = held and k = 0 and now = 2 and ts = 2
        and s = pressed_example] h by blast
  have d: "\<exists>r. collect_presses released 0 2 2 pressed_example = Some r"
    using collect_presses_duration [where btn = released and k = 0 and now = 2 and ts = 2
        and s = pressed_example and m = 0] q' by blast
  have e: "pressed_example\<lparr>last_sw := released n\<rparr> = pressed_example" for n
    by (simp add: released_def v(3) [symmetric])
  show ?thesis
    using run a b c d by (simp add: v e held_first_pass_def)
qed

subsection \<open>Falling edges inside the window\<close>

text \<open>
  C4 at a held button. The button was up at the previous tick and is down at this one and
  at every reading inside the loop. The line falls once, yet the loop counts a second press
  at its first reading, because \<open>last_sw\<close> still holds the reading from before the press
  (line 339 compares against it, and line 345 updates it only afterwards). While playing,
  the tick therefore skips forward instead of toggling play and pause.
\<close>

theorem held_button_counted_twice:
  "last_sw playing_example = 1 \<and>
   map_option (press_count \<circ> snd \<circ> snd)
     (collect_presses held 0 2 2 (register_press 2 playing_example)) = Some 2 \<and>
   map_option (map_sum id events) (check_encoder env_example 2 1 1 0 held playing_example) =
     Some (Inr [SkipTrackCalled True])"
  by (simp add: check_encoder_def rotary_step_def button_step_def register_press_def
      collect_presses.simps process_presses_def skip_track_def display_update_caught_def
      display_update_def py_index_def held_def playing_example_def last_selected_example_def
      idle_example_def init_player_def catalog_example_def env_example_def seven_pixels_def
      load_succeeds_def OLED_WIDTH_def Let_def)

subsection \<open>Volume\<close>

text \<open>The bounds and the forwarded half, step by step.\<close>

lemma clockwise_step_volume:
  assumes "clockwise_step s = Inr s1"
    and "0 \<le> current_volume s" and "current_volume s \<le> 1"
    and "mixer_volume s = current_volume s / 2"
  shows "0 \<le> current_volume s1 \<and> current_volume s1 \<le> 1 \<and>
     mixer_volume s1 = current_volume s1 / 2"
  using assms by (auto simp: clockwise_step_def Let_def split: if_splits)

lemma counter_clockwise_step_volume:
  assumes "counter_clockwise_step s = Inr s1"
    and "0 \<le> current_volume s" and "current_volume s \<le> 1"
    and "mixer_volume s = current_volume s / 2"
  shows "0 \<le> current_volume s1 \<and> current_volume s1 \<le> 1 \<and>
     mixer_volume s1 = current_volume s1 / 2"
  using assms by (auto simp: counter_clockwise_step_def Let_def split: if_splits)

lemma finish_step_volume:
  assumes "finish_step e now r = Inr s'"
  shows "\<exists>s1. r = Inr s1 \<and> current_volume s' = current_volume s1 \<and>
     mixer_volume s' = mixer_volume s1"
  using assms
  by (auto simp: finish_step_def display_update_frame split: sum.splits)

lemma rotary_step_volume:
  assumes "rotary_step e now a b s = Inr s'"
    and "0 \<le> current_volume s" and "current_volume s \<le> 1"
    and "mixer_volume s = current_volume s / 2"
  shows "0 \<le> current_volume s' \<and> current_volume s' \<le> 1 \<and>
     mixer_volume s' = current_volume s' / 2"
proof -
  let ?r = "record_state a b s"
  have v: "0 \<le> current_volume ?r" "current_volume ?r \<le> 1"
    "mixer_volume ?r = current_volume ?r / 2"
    using assms(2-4) by (simp_all add: record_state_frame)
  show ?thesis
  proof (cases "a \<noteq> last_a s \<or> b \<noteq> last_b s")
    case False
    with assms(1) have "s' = s" by (simp add: rotary_step_def)
    with assms(2-4) show ?thesis by simp
  next
    case change: True
    show ?thesis
    proof (cases "length (last_states ?r) = 2 \<and> last_states ?r ! 0 = (1, 1) \<and>
        last_states ?r ! 1 = (1, 0)")
      case True
      with change assms(1) have cw: "finish_step e now (clockwise_step ?r) = Inr s'"
        by (simp add: rotary_step_def Let_def)
      from finish_step_volume [OF cw] obtain s1 where
        "clockwise_step ?r = Inr s1" "current_volume s' = current_volume s1"
        "mixer_volume s' = mixer_volume s1"
        by blast
      with clockwise_step_volume [OF _ v] show ?thesis by simp
    next
      case ncw: False
      show ?thesis
      proof (cases "length (last_states ?r) = 2 \<and> last_states ?r ! 0 = (1, 1) \<and>
          last_states ?r ! 1 = (0, 1)")
        case True
        with change assms(1) have ccw: "finish_step e now (counter_clockwise_step ?r) = Inr s'"
          by (simp add: rotary_step_def Let_def)
        from finish_step_volume [OF ccw] obtain s1 where
          "counter_clockwise_step ?r = Inr s1" "current_volume s' = current_volume s1"
          "mixer_volume s' = mixer_volume s1"
          by blast
        with counter_clockwise_step_volume [OF _ v] show ?thesis by simp
      next
        case False
        with ncw change have "rotary_step e now a b s = Inr ?r"
          by (auto simp: rotary_step_def Let_def)
        with assms(1) have "s' = ?r" by simp
        with v show ?thesis by simp
      qed
    qed
  qed
qed

lemma button_step_volume:
  assumes "button_step e now sw btn s = Some s'"
  shows "current_volume s' = current_volume s \<and> mixer_volume s' = mixer_volume s"
proof (cases "sw = 0 \<and> last_sw s = 1 \<and> press_count (register_press now s) = 1")
  case True
  with assms obtain t ts w where
    c: "collect_presses btn 0 now now (register_press now s) = Some (t, ts, w)"
    and s': "s' = process_presses e t w"
    by (auto simp: button_step_def Let_def split: option.splits)
  from collect_presses_frame [OF c] show ?thesis
    by (simp add: s' process_presses_fields register_press_frame)
next
  case False
  with assms have "s' = register_press now s \<or> s' = s"
    by (auto simp: button_step_def Let_def split: if_splits)
  then show ?thesis by (auto simp: register_press_frame)
qed

lemma check_encoder_volume:
  assumes "check_encoder e now a b sw btn s = Some (Inr s')"
    and "0 \<le> current_volume s" and "current_volume s \<le> 1"
    and "mixer_volume s = current_volume s / 2"
  shows "0 \<le> current_volume s' \<and> current_volume s' \<le> 1 \<and>
     mixer_volume s' = current_volume s' / 2"
proof -
  from assms(1) obtain s1 s2 where
    r: "rotary_step e now a b s = Inr s1" and
    b: "button_step e now sw btn s1 = Some s2" and
    s': "s' = s2\<lparr>last_a := a, last_b := b, last_sw := sw\<rparr>"
    by (auto simp: check_encoder_def split: sum.splits option.splits)
  from rotary_step_volume [OF r assms(2-4)] button_step_volume [OF b]
  show ?thesis by (simp add: s')
qed

lemma run_ticks_volume:
  assumes "run_ticks ticks s = Some (Inr s')"
    and "0 \<le> current_volume s" and "current_volume s \<le> 1"
    and "mixer_volume s = current_volume s / 2"
  shows "0 \<le> current_volume s' \<and> current_volume s' \<le> 1 \<and>
     mixer_volume s' = current_volume s' / 2"
  using assms
proof (induction ticks arbitrary: s)
  case Nil
  then show ?case by simp
next
  case (Cons x ticks)
  obtain e now a b sw btn where x: "x = (e, now, a, b, sw, btn)"
    by (cases x) auto
  from Cons.prems(1) obtain s1 where
    c: "check_encoder e now a b sw btn s = Some (Inr s1)" and
    r: "run_ticks ticks s1 = Some (Inr s')"
    by (auto simp: x split: option.splits sum.splits)
  from check_encoder_volume [OF c Cons.prems(2-4)]
  have "0 \<le> current_volume s1" "current_volume s1 \<le> 1"
    "mixer_volume s1 = current_volume s1 / 2"
    by simp_all
  from Cons.IH [OF r this] show ?case .
qed

text \<open>A sample other than (1,0) and (0,1) completes no step.\<close>

lemma record_state_last:
  "last_states (record_state a b s) \<noteq> []" "last (last_states (record_state a b s)) = (a, b)"
  "length (last_states s) \<le> 2 \<Longrightarrow> length (last_states (record_state a b s)) \<le> 2"
proof -
  have t: "tl (xs @ [x]) = tl xs @ [x]" if "xs \<noteq> []" for xs :: "(int \<times> int) list" and x
    using that by (cases xs) simp_all
  show "last_states (record_state a b s) \<noteq> []"
    by (cases "last_states s") (simp_all add: record_state_def Let_def t)
  show "last (last_states (record_state a b s)) = (a, b)"
    by (cases "last_states s") (simp_all add: record_state_def Let_def t)
  show "length (last_states (record_state a b s)) \<le> 2" if "length (last_states s) \<le> 2"
    using that by (cases "last_states s") (simp_all add: record_state_def Let_def t)
qed

lemma rotary_step_unrecognised:
  assumes "(a, b) \<noteq> (1, 0)" and "(a, b) \<noteq> (0, 1)" and "a \<noteq> last_a s \<or> b \<noteq> last_b s"
  shows "rotary_step e now a b s = Inr (record_state a b s)"
proof -
  let ?h = "last_states (record_state a b s)"
  have "?h ! 1 = (a, b)" if "length ?h = 2"
    using that record_state_last(1,2) [of a b s] by (simp add: last_conv_nth)
  then show ?thesis
    using assms by (auto simp: rotary_step_def Let_def)
qed

text \<open>After a rest at (1,1), the sample (1,0) completes the clockwise history.\<close>

lemma record_state_clockwise:
  assumes "last_states s \<noteq> []" and "last (last_states s) = (1, 1)"
    and "length (last_states s) \<le> 2"
  shows "last_states (record_state 1 0 s) = [(1, 1), (1, 0)]"
proof (cases "last_states s")
  case Nil
  with assms(1) show ?thesis by simp
next
  case (Cons x xs)
  show ?thesis
  proof (cases xs)
    case Nil
    with Cons assms(2) show ?thesis by (simp add: record_state_def Let_def)
  next
    case (Cons y ys)
    with \<open>last_states s = x # xs\<close> assms(2,3) show ?thesis
      by (simp add: record_state_def Let_def)
  qed
qed

lemma rotary_step_clockwise_playing:
  assumes "playing s" and "0 \<le> selected s" and "selected s < int (length (songs s))"
    and "a \<noteq> last_a s \<or> b \<noteq> last_b s"
    and "last_states (record_state a b s) = [(1, 1), (1, 0)]"
  shows "\<exists>s'. rotary_step e now a b s = Inr s' \<and> playing s' \<and> songs s' = songs s \<and>
     selected s' = selected s \<and> last_states s' = [(1, 0)] \<and>
     current_volume s' = min 1.0 (current_volume s + 0.01) \<and>
     mixer_volume s' = current_volume s' / 2"
proof -
  let ?r = "record_state a b s"
  have ne: "songs ?r \<noteq> []" using assms(2,3) by (auto simp: record_state_frame)
  from clockwise_step_Inr [OF ne] assms(1) obtain s1 where
    c: "clockwise_step ?r = Inr s1" and
    f: "songs s1 = songs s" "playing s1" "selected s1 = selected s"
       "last_states s1 = last_states ?r"
       "current_volume s1 = min 1.0 (current_volume s + 0.01)"
       "mixer_volume s1 = min 1.0 (current_volume s + 0.01) / 2"
    by (auto simp: record_state_frame)
  have r: "0 \<le> selected s1" "selected s1 < int (length (songs s1))"
    using assms(2,3) by (simp_all add: f)
  have st: "rotary_step e now a b s = finish_step e now (Inr s1)"
    using assms(4,5) c by (simp add: rotary_step_def Let_def)
  from finish_step_fields [OF r, of e now] obtain s' where
    "finish_step e now (Inr s1) = Inr s'" "playing s' = playing s1" "songs s' = songs s1"
    "selected s' = selected s1" "last_states s' = [last (last_states s1)]"
    "current_volume s' = current_volume s1" "mixer_volume s' = mixer_volume s1"
    by blast
  then show ?thesis
    unfolding st by (simp add: f assms(5))
qed

text \<open>One clockwise detent while playing, the button up: two ticks.\<close>

lemma clockwise_detent:
  assumes "playing s" and "last_a s = 1" and "last_b s = 0" and "last_sw s = 1"
    and "length (last_states s) \<le> 2"
    and "0 \<le> selected s" and "selected s < int (length (songs s))"
  shows "\<exists>s1 s2. check_encoder e t1 1 1 1 released s = Some (Inr s1) \<and>
     check_encoder e t2 1 0 1 released s1 = Some (Inr s2) \<and>
     playing s2 \<and> last_a s2 = 1 \<and> last_b s2 = 0 \<and> last_sw s2 = 1 \<and>
     length (last_states s2) \<le> 2 \<and> songs s2 = songs s \<and> selected s2 = selected s \<and>
     current_volume s2 = min 1.0 (current_volume s + 0.01) \<and>
     mixer_volume s2 = current_volume s2 / 2"
proof -
  let ?r = "record_state 1 1 s"
  define s1 where "s1 = ?r\<lparr>last_a := 1, last_b := 1, last_sw := 1\<rparr>"
  have "rotary_step e t1 1 1 s = Inr ?r"
    using assms(3) by (simp add: rotary_step_unrecognised)
  moreover have "button_step e t1 1 released ?r = Some ?r"
    by (simp add: button_step_def)
  ultimately have c1: "check_encoder e t1 1 1 1 released s = Some (Inr s1)"
    by (simp add: check_encoder_def s1_def)
  have p: "playing s1" "0 \<le> selected s1" "selected s1 < int (length (songs s1))"
    "1 \<noteq> last_a s1 \<or> 0 \<noteq> last_b s1" "songs s1 = songs s" "selected s1 = selected s"
    "current_volume s1 = current_volume s"
    using assms by (simp_all add: s1_def record_state_frame)
  have h: "last_states (record_state 1 0 s1) = [(1, 1), (1, 0)]"
    using record_state_last [where a = 1 and b = 1 and s = s] assms(5)
    by (intro record_state_clockwise) (simp_all add: s1_def)
  from rotary_step_clockwise_playing [OF p(1-4) h, where e = e and now = t2] obtain s' where
    r: "rotary_step e t2 1 0 s1 = Inr s'" and
    f: "playing s'" "songs s' = songs s1" "selected s' = selected s1"
       "last_states s' = [(1, 0)]" "current_volume s' = min 1.0 (current_volume s1 + 0.01)"
       "mixer_volume s' = current_volume s' / 2"
    by blast
  have "button_step e t2 1 released s' = Some s'"
    by (simp add: button_step_def)
  with r have c2: "check_encoder e t2 1 0 1 released s1 =
      Some (Inr (s'\<lparr>last_a := 1, last_b := 0, last_sw := 1\<rparr>))"
    by (simp add: check_encoder_def)
  show ?thesis
    using c1 c2 by (simp add: f p)
qed

lemma min_clamp_add: "0 \<le> y \<Longrightarrow> min 1.0 (min 1.0 x + y) = min (1.0::real) (x + y)"
  by (auto simp: min_def)

lemma clockwise_turn_volume:
  assumes "playing s" and "last_a s = 1" and "last_b s = 0" and "last_sw s = 1"
    and "length (last_states s) \<le> 2"
    and "0 \<le> selected s" and "selected s < int (length (songs s))"
    and "mixer_volume s = current_volume s / 2" and "current_volume s \<le> 1"
  shows "\<exists>s'. run_ticks (clockwise_turn e now n) s = Some (Inr s') \<and>
     current_volume s' = min 1.0 (current_volume s + 0.01 * real n) \<and>
     mixer_volume s' = current_volume s' / 2"
  using assms
proof (induction n arbitrary: s now)
  case 0
  then show ?case by simp
next
  case (Suc n)
  from clockwise_detent [OF Suc.prems(1-7), where e = e and ?t1.0 = now and ?t2.0 = "now + 0.01"] obtain s1 s2 where
    c: "check_encoder e now 1 1 1 released s = Some (Inr s1)"
       "check_encoder e (now + 0.01) 1 0 1 released s1 = Some (Inr s2)" and
    p: "playing s2" "last_a s2 = 1" "last_b s2 = 0" "last_sw s2 = 1"
       "length (last_states s2) \<le> 2" and
    q: "songs s2 = songs s" "selected s2 = selected s" and
    v: "current_volume s2 = min 1.0 (current_volume s + 0.01)"
       "mixer_volume s2 = current_volume s2 / 2"
    by blast
  have i: "0 \<le> selected s2" "selected s2 < int (length (songs s2))"
    using Suc.prems(6,7) by (simp_all add: q)
  have le: "current_volume s2 \<le> 1" by (simp add: v)
  from Suc.IH [OF p i v(2) le, of "now + 0.02"] obtain s' where
    r: "run_ticks (clockwise_turn e (now + 0.02) n) s2 = Some (Inr s')" and
    w: "current_volume s' = min 1.0 (current_volume s2 + 0.01 * real n)"
       "mixer_volume s' = current_volume s' / 2"
    by blast
  have "min 1.0 (min 1.0 (current_volume s + 0.01) + 0.01 * real n) =
      min (1.0::real) (current_volume s + 0.01 + 0.01 * real n)"
    by (rule min_clamp_add) simp
  also have "current_volume s + 0.01 + 0.01 * real n = current_volume s + 0.01 * real (Suc n)"
    by (simp add: algebra_simps)
  finally have "min 1.0 (min 1.0 (current_volume s + 0.01) + 0.01 * real n) =
      min (1.0::real) (current_volume s + 0.01 * real (Suc n))" .
  with w v have "current_volume s' = min 1.0 (current_volume s + 0.01 * real (Suc n))"
    by simp
  with r c w(2) show ?case by simp
qed

text \<open>
  C8. Along every run of ticks that starts with the volume in \<open>[0, 1]\<close> and half of it
  forwarded to the audio service, the volume stays in \<open>[0, 1]\<close> and the forwarded volume
  stays half of it, whatever the knob and the button do; the player starts that way, at
  0.02 with 0.01 forwarded. While playing from volume 0.0, a clockwise turn of at least 100
  detents (150 among them) ends at exactly 1.0 with 0.5 forwarded.
\<close>

theorem volume_bounds:
  "(0 \<le> current_volume s \<and> current_volume s \<le> 1 \<and> mixer_volume s = current_volume s / 2 \<and>
    run_ticks ticks s = Some (Inr s') \<longrightarrow>
      0 \<le> current_volume s' \<and> current_volume s' \<le> 1 \<and>
      mixer_volume s' = current_volume s' / 2) \<and>
   (playing p \<and> last_a p = 1 \<and> last_b p = 0 \<and> last_sw p = 1 \<and> length (last_states p) \<le> 2 \<and>
    0 \<le> selected p \<and> selected p < int (length (songs p)) \<and>
    current_volume p = 0.0 \<and> mixer_volume p = 0.0 \<and> 100 \<le> n \<longrightarrow>
      (\<exists>p'. run_ticks (clockwise_turn e now n) p = Some (Inr p') \<and>
            current_volume p' = 1.0 \<and> mixer_volume p' = 1.0 / 2)) \<and>
   0 \<le> current_volume (init_player a b sw catalog) \<and>
   current_volume (init_player a b sw catalog) \<le> 1 \<and>
   mixer_volume (init_player a b sw catalog) = current_volume (init_player a b sw catalog) / 2"
proof -
  have c1: "0 \<le> current_volume s \<and> current_volume s \<le> 1 \<and>
      mixer_volume s = current_volume s / 2 \<and> run_ticks ticks s = Some (Inr s') \<longrightarrow>
      0 \<le> current_volume s' \<and> current_volume s' \<le> 1 \<and>
      mixer_volume s' = current_volume s' / 2"
    using run_ticks_volume [of ticks s s'] by blast
  have c2: "playing p \<and> last_a p = 1 \<and> last_b p = 0 \<and> last_sw p = 1 \<and>
      length (last_states p) \<le> 2 \<and> 0 \<le> selected p \<and> selected p < int (length (songs p)) \<and>
      current_volume p = 0.0 \<and> mixer_volume p = 0.0 \<and> 100 \<le> n \<longrightarrow>
      (\<exists>p'. run_ticks (clockwise_turn e now n) p = Some (Inr p') \<and>
            current_volume p' = 1.0 \<and> mixer_volume p' = 1.0 / 2)"
  proof
    assume h: "playing p \<and> last_a p = 1 \<and> last_b p = 0 \<and> last_sw p = 1 \<and>
      length (last_states p) \<le> 2 \<and> 0 \<le> selected p \<and> selected p < int (length (songs p)) \<and>
      current_volume p = 0.0 \<and> mixer_volume p = 0.0 \<and> 100 \<le> n"
    then have "mixer_volume p = current_volume p / 2" "current_volume p \<le> 1"
      by simp_all
    from clockwise_turn_volume [where e = e and now = now and n = n and s = p, OF _ _ _ _ _ _ _ this]
      h obtain p' where
      r: "run_ticks (clockwise_turn e now n) p = Some (Inr p')" and
      v: "current_volume p' = min 1.0 (current_volume p + 0.01 * real n)"
         "mixer_volume p' = current_volume p' / 2"
      by blast
    from h have "100 \<le> real n" by simp
    then have "(1::real) \<le> 0.01 * real n" by simp
    with h v have "current_volume p' = 1.0" by simp
    with r v(2) show "\<exists>p'. run_ticks (clockwise_turn e now n) p = Some (Inr p') \<and>
            current_volume p' = 1.0 \<and> mixer_volume p' = 1.0 / 2"
      by auto
  qed
  have c3: "0 \<le> current_volume (init_player a b sw catalog)"
    "current_volume (init_player a b sw catalog) \<le> 1"
    "mixer_volume (init_player a b sw catalog) = current_volume (init_player a b sw catalog) / 2"
    by (simp_all add: init_player_def)
  show ?thesis
    by (intro conjI c1 c2 c3)
qed

theorem volume_bounds_witness:
  "playing muted_example \<and> last_a muted_example = 1 \<and> last_b muted_example = 0 \<and>
   last_sw muted_example = 1 \<and> selected muted_example = 0 \<and>
   current_volume muted_example = 0 \<and> mixer_volume muted_example = 0 \<and>
   (\<exists>p'. run_ticks (clockwise_turn env_example 1 150) muted_example = Some (Inr p') \<and>
      current_volume p' = 1 \<and> mixer_volume p' = 1 / 2 \<and> 0 \<le> current_volume p')"
proof -
  have m: "playing muted_example" "last_a muted_example = 1" "last_b muted_example = 0"
    "last_sw muted_example = 1" "selected muted_example = 0"
    "current_volume muted_example = 0" "mixer_volume muted_example = 0"
    "length (last_states muted_example) \<le> 2" "songs muted_example = catalog_example"
    by (simp_all add: muted_example_def idle_example_def init_player_def)
  have h: "playing muted_example \<and> last_a muted_example = 1 \<and> last_b muted_example = 0 \<and>
      last_sw muted_example = 1 \<and> length (last_states muted_example) \<le> 2 \<and>
      0 \<le> selected muted_example \<and>
      selected muted_example < int (length (songs muted_example)) \<and>
      current_volume muted_example = 0.0 \<and> mixer_volume muted_example = 0.0 \<and>
      (100::nat) \<le> 150"
    by (simp add: m catalog_example_def)
  from volume_bounds [where p = muted_example and n = 150 and e = env_example and now = 1] h
  obtain p' where
    r: "run_ticks (clockwise_turn env_example 1 150) muted_example = Some (Inr p')" and
    v: "current_volume p' = 1.0" "mixer_volume p' = 1.0 / 2"
    by blast
  have i: "0 \<le> current_volume muted_example \<and> current_volume muted_example \<le> 1 \<and>
      mixer_volume muted_example = current_volume muted_example / 2 \<and>
      run_ticks (clockwise_turn env_example 1 150) muted_example = Some (Inr p')"
    using r by (simp add: m)
  from volume_bounds [where s = muted_example and s' = p'
      and ticks = "clockwise_turn env_example 1 150"] i
  have "0 \<le> current_volume p'" by blast
  with r v show ?thesis by (auto simp: m)
qed

subsection \<open>Rotation decoding over every sequence of samples\<close>

lemma changed_states_snoc:
  "changed_states p (xs @ [x]) =
     changed_states p xs @ (if x \<noteq> last (p # xs) then [x] else [])"
  by (induction xs arbitrary: p) simp_all

lemma last_two_snoc:
  "last_two ([] @ [x]) = [x]" "last_two ([c] @ [x]) = [c, x]"
  "last_two ((ys @ [c1, c2]) @ [x]) = [c2, x]" "last_two (ys @ [c1, c2]) = [c1, c2]"
  "last_two [c] = [c]" "last_two [] = []"
  by (simp_all add: last_two_def)

lemma list_end_cases:
  obtains "cs = []" | c where "cs = [c]" | ys c1 c2 where "cs = ys @ [c1, c2]"
proof (cases cs rule: rev_cases)
  case Nil
  then show ?thesis using that by simp
next
  case (snoc ys c2)
  then show ?thesis
  proof (cases ys rule: rev_cases)
    case Nil
    with snoc that show ?thesis by simp
  next
    case (snoc zs c1)
    with \<open>cs = ys @ [c2]\<close> that show ?thesis by simp
  qed
qed

text \<open>
  The buffer after recording a changed pair, when the buffer held the last two changed
  pairs so far, or only the last one of them (as after a recognised step).
\<close>

lemma record_state_history:
  assumes "last_states s = last_two cs \<or> (cs \<noteq> [] \<and> last_states s = [last cs])"
  shows "last_states (record_state a b s) = last_two (cs @ [(a, b)])"
proof (cases cs rule: list_end_cases)
  case 1
  with assms show ?thesis
    by (simp add: record_state_def Let_def last_two_def)
next
  case (2 c)
  with assms show ?thesis
    by (auto simp: record_state_def Let_def last_two_def)
next
  case (3 ys c1 c2)
  with assms show ?thesis
    by (auto simp: record_state_def Let_def last_two_def)
qed

text \<open>What the button part of a tick leaves of the decoder's state.\<close>

lemma play_pause_decoder:
  "last_states (play_pause e now s) = last_states s" "songs (play_pause e now s) = songs s"
  "selected (play_pause e now s) = selected s"
  by (simp_all add: play_pause_def Let_def display_update_caught_frame split: sum.splits)

lemma skip_track_decoder:
  "last_states (skip_track e now forward s) = last_states s"
  "songs (skip_track e now forward s) = songs s"
  "0 \<le> selected s \<and> selected s < int (length (songs s)) \<Longrightarrow>
     0 \<le> selected (skip_track e now forward s) \<and>
     selected (skip_track e now forward s) < int (length (songs s))"
  by (auto simp: skip_track_def Let_def display_update_caught_frame)

lemma process_presses_decoder:
  "last_states (process_presses e now s) = last_states s"
  "songs (process_presses e now s) = songs s"
  "0 \<le> selected s \<and> selected s < int (length (songs s)) \<Longrightarrow>
     0 \<le> selected (process_presses e now s) \<and>
     selected (process_presses e now s) < int (length (songs s))"
  by (simp_all add: process_presses_def Let_def play_pause_decoder skip_track_decoder)

lemma register_press_decoder:
  "last_states (register_press now s) = last_states s" "songs (register_press now s) = songs s"
  "selected (register_press now s) = selected s"
  by (simp_all add: register_press_def Let_def)

lemma button_step_decoder:
  assumes "button_step e now sw btn s = Some s'"
    and "0 \<le> selected s" and "selected s < int (length (songs s))"
  shows "last_states s' = last_states s \<and> songs s' = songs s \<and> 0 \<le> selected s' \<and>
     selected s' < int (length (songs s))"
proof (cases "sw = 0 \<and> last_sw s = 1 \<and> press_count (register_press now s) = 1")
  case True
  with assms(1) obtain t ts w where
    c: "collect_presses btn 0 now now (register_press now s) = Some (t, ts, w)"
    and s': "s' = process_presses e t w"
    by (auto simp: button_step_def Let_def split: option.splits)
  from collect_presses_frame [OF c]
  have w: "songs w = songs s" "selected w = selected s" "last_states w = last_states s"
    by (simp_all add: register_press_decoder)
  from assms(2,3) have "0 \<le> selected w \<and> selected w < int (length (songs w))"
    by (simp add: w)
  from process_presses_decoder(3) [OF this, of e t] show ?thesis
    by (simp add: s' process_presses_decoder w)
next
  case False
  with assms(1) have "s' = register_press now s \<or> s' = s"
    by (auto simp: button_step_def Let_def split: if_splits)
  with assms(2,3) show ?thesis by (auto simp: register_press_decoder)
qed

text \<open>
  One tick keeps the decoder's invariant: the lines of the tick become the previous
  sample, the buffer follows the changed pairs, the selection stays in range.
\<close>

lemma check_encoder_history:
  assumes "check_encoder e now a b sw btn s = Some (Inr s')"
    and "0 \<le> selected s" and "selected s < int (length (songs s))"
    and "last_states s = last_two cs \<or> (cs \<noteq> [] \<and> last_states s = [last cs])"
  shows "last_a s' = a \<and> last_b s' = b \<and> songs s' = songs s \<and> 0 \<le> selected s' \<and>
     selected s' < int (length (songs s')) \<and>
     (last_states s' = last_two (cs @ changed_states (last_a s, last_b s) [(a, b)]) \<or>
      (cs @ changed_states (last_a s, last_b s) [(a, b)] \<noteq> [] \<and>
       last_states s' = [last (cs @ changed_states (last_a s, last_b s) [(a, b)])]))"
proof -
  from assms(1) obtain s1 s2 where
    r: "rotary_step e now a b s = Inr s1" and
    b: "button_step e now sw btn s1 = Some s2" and
    s': "s' = s2\<lparr>last_a := a, last_b := b, last_sw := sw\<rparr>"
    by (auto simp: check_encoder_def split: sum.splits option.splits)
  let ?h = "last_states (record_state a b s)"
  have h: "?h = last_two (cs @ [(a, b)])"
    using assms(4) by (rule record_state_history)
  have hl: "?h \<noteq> []" "last ?h = (a, b)"
    by (rule record_state_last)+
  have s1: "songs s1 = songs s \<and> 0 \<le> selected s1 \<and> selected s1 < int (length (songs s)) \<and>
     (if a \<noteq> last_a s \<or> b \<noteq> last_b s
      then last_states s1 = ?h \<or> last_states s1 = [(a, b)]
      else last_states s1 = last_states s)"
  proof (cases "a \<noteq> last_a s \<or> b \<noteq> last_b s")
    case False
    with rotary_step_recorded [OF assms(2,3), of a b e now] r assms(2,3) show ?thesis
      by auto
  next
    case change: True
    consider (cw) "?h = [(1, 1), (1, 0)]" | (ccw) "?h = [(1, 1), (0, 1)]"
      | (other) "?h \<noteq> [(1, 1), (1, 0)]" "?h \<noteq> [(1, 1), (0, 1)]"
      by blast
    then show ?thesis
    proof cases
      case cw
      with hl have "(a, b) = (1, 0)" by simp
      with rotary_step_recorded [OF assms(2,3), of a b e now] r change cw show ?thesis
        by auto
    next
      case ccw
      with hl have "(a, b) = (0, 1)" by simp
      with rotary_step_recorded [OF assms(2,3), of a b e now] r change ccw show ?thesis
        by auto
    next
      case other
      with rotary_step_recorded [OF assms(2,3), of a b e now] r change assms(2,3)
      show ?thesis
        by (auto simp: record_state_frame)
    qed
  qed
  then have r1: "0 \<le> selected s1" "selected s1 < int (length (songs s1))"
    and g: "songs s1 = songs s"
    by simp_all
  from button_step_decoder [OF b r1]
  have s2: "last_states s2 = last_states s1" "songs s2 = songs s1" "0 \<le> selected s2"
    "selected s2 < int (length (songs s1))"
    by simp_all
  show ?thesis
  proof (cases "a \<noteq> last_a s \<or> b \<noteq> last_b s")
    case True
    then have c: "changed_states (last_a s, last_b s) [(a, b)] = [(a, b)]" by auto
    from True s1 have "last_states s1 = last_two (cs @ [(a, b)]) \<or> last_states s1 = [(a, b)]"
      by (simp add: h)
    with g s2 True show ?thesis
      by (auto simp: s')
  next
    case False
    then have c: "changed_states (last_a s, last_b s) [(a, b)] = []" by auto
    from False s1 have "last_states s1 = last_states s" by simp
    with g s2 assms(4) False show ?thesis
      by (auto simp: s')
  qed
qed

lemma run_ticks_history:
  assumes "run_ticks ticks s = Some (Inr s')"
    and "0 \<le> selected s" and "selected s < int (length (songs s))"
    and "last_states s = last_two cs \<or> (cs \<noteq> [] \<and> last_states s = [last cs])"
  shows "(last_a s', last_b s') = last ((last_a s, last_b s) # map tick_lines ticks) \<and>
     0 \<le> selected s' \<and> selected s' < int (length (songs s')) \<and>
     (last_states s' = last_two (cs @ changed_states (last_a s, last_b s) (map tick_lines ticks)) \<or>
      (cs @ changed_states (last_a s, last_b s) (map tick_lines ticks) \<noteq> [] \<and>
       last_states s' = [last (cs @ changed_states (last_a s, last_b s) (map tick_lines ticks))]))"
  using assms
proof (induction ticks arbitrary: s cs)
  case Nil
  then show ?case by simp
next
  case (Cons x ticks)
  obtain e now a b sw btn where x: "x = (e, now, a, b, sw, btn)"
    by (cases x) auto
  from Cons.prems(1) obtain s1 where
    c: "check_encoder e now a b sw btn s = Some (Inr s1)" and
    r: "run_ticks ticks s1 = Some (Inr s')"
    by (auto simp: x split: option.splits sum.splits)
  let ?cs1 = "cs @ changed_states (last_a s, last_b s) [(a, b)]"
  from check_encoder_history [OF c Cons.prems(2-4)]
  have l: "last_a s1 = a" "last_b s1 = b"
    and i: "0 \<le> selected s1" "selected s1 < int (length (songs s1))"
    and b: "last_states s1 = last_two ?cs1 \<or> (?cs1 \<noteq> [] \<and> last_states s1 = [last ?cs1])"
    by blast+
  have e: "?cs1 @ changed_states (a, b) (map tick_lines ticks) =
      cs @ changed_states (last_a s, last_b s) (map tick_lines (x # ticks))"
    by (simp add: x tick_lines_def)
  have e2: "last ((a, b) # map tick_lines ticks) =
      last ((last_a s, last_b s) # map tick_lines (x # ticks))"
    by (simp add: x tick_lines_def)
  from Cons.IH [OF r i b, unfolded l]
  have "(last_a s', last_b s') = last ((a, b) # map tick_lines ticks) \<and>
     0 \<le> selected s' \<and> selected s' < int (length (songs s')) \<and>
     (last_states s' = last_two (?cs1 @ changed_states (a, b) (map tick_lines ticks)) \<or>
      (?cs1 @ changed_states (a, b) (map tick_lines ticks) \<noteq> [] \<and>
       last_states s' = [last (?cs1 @ changed_states (a, b) (map tick_lines ticks))]))" .
  then show ?case
    unfolding e e2 .
qed

text \<open>
  C1. Take a catalog that is not empty, any start-up reading \<open>(a0, b0)\<close> of the two
  lines, any run of ticks from the start-up state that returns, and the next sample
  \<open>(a, b)\<close>. The changed states are the samples that differ from the sample immediately
  before them, the start-up reading being the one before the first sample (it is not a
  changed state itself), and the history \<open>h\<close> is the last two changed states up to and
  including \<open>(a, b)\<close>. When \<open>(a, b)\<close> differs from the previous sample: if \<open>h\<close> is
  \<open>[(1,1),(1,0)]\<close>, exactly one \<open>StepClockwise\<close> is emitted (and counted) and the retained
  history is \<open>[(1,0)]\<close>; if \<open>h\<close> is \<open>[(1,1),(0,1)]\<close>, exactly one \<open>StepCounterClockwise\<close>
  is emitted and the retained history is \<open>[(0,1)]\<close>; for every other \<open>h\<close> nothing is
  emitted and the retained history is \<open>h\<close>. A sample equal to the previous one changes
  nothing.
\<close>

theorem rotary_decoding_of_samples:
  assumes "catalog \<noteq> []"
    and "run_ticks ticks (init_player a0 b0 sw0 catalog) = Some (Inr s)"
    and "prev = last ((a0, b0) # map tick_lines ticks)"
    and "h = last_two (changed_states (a0, b0) (map tick_lines ticks @ [(a, b)]))"
  shows
    "((a, b) \<noteq> prev \<and> h = [(1, 1), (1, 0)] \<longrightarrow>
       (\<exists>s'. rotary_step e now a b s = Inr s' \<and> events s' = events s @ [StepClockwise] \<and>
             encoder_count s' = encoder_count s + 1 \<and> last_states s' = [(1, 0)])) \<and>
     ((a, b) \<noteq> prev \<and> h = [(1, 1), (0, 1)] \<longrightarrow>
       (\<exists>s'. rotary_step e now a b s = Inr s' \<and> events s' = events s @ [StepCounterClockwise] \<and>
             encoder_count s' = encoder_count s + 1 \<and> last_states s' = [(0, 1)])) \<and>
     ((a, b) \<noteq> prev \<and> h \<noteq> [(1, 1), (1, 0)] \<and> h \<noteq> [(1, 1), (0, 1)] \<longrightarrow>
       (\<exists>s'. rotary_step e now a b s = Inr s' \<and> events s' = events s \<and>
             encoder_count s' = encoder_count s \<and> last_states s' = h)) \<and>
     ((a, b) = prev \<longrightarrow> rotary_step e now a b s = Inr s)"
proof -
  let ?s0 = "init_player a0 b0 sw0 catalog"
  let ?cs = "changed_states (a0, b0) (map tick_lines ticks)"
  have i0: "0 \<le> selected ?s0" "selected ?s0 < int (length (songs ?s0))"
    using assms(1) by (simp_all add: init_player_def)
  have b0: "last_states ?s0 = last_two [] \<or> ([] \<noteq> [] \<and> last_states ?s0 = [last []])"
    by (simp add: init_player_def last_two_def)
  have l0: "last_a ?s0 = a0" "last_b ?s0 = b0"
    by (simp_all add: init_player_def)
  from run_ticks_history [OF assms(2) i0 b0]
  have p: "(last_a s, last_b s) = prev"
    and i: "0 \<le> selected s" "selected s < int (length (songs s))"
    and b: "last_states s = last_two ?cs \<or> (?cs \<noteq> [] \<and> last_states s = [last ?cs])"
    by (simp_all add: l0 assms(3))
  have same: "(a, b) = prev \<longrightarrow> rotary_step e now a b s = Inr s"
    using p by (auto simp: rotary_step_def)
  have rec: "last_states (record_state a b s) = h" if "(a, b) \<noteq> prev"
  proof -
    from that have "changed_states (a0, b0) (map tick_lines ticks @ [(a, b)]) = ?cs @ [(a, b)]"
      by (simp add: changed_states_snoc assms(3))
    with record_state_history [OF b, of a b] show ?thesis
      by (simp add: assms(4))
  qed
  have ch: "a \<noteq> last_a s \<or> b \<noteq> last_b s" if "(a, b) \<noteq> prev"
    using that p by auto
  have e: "encoder_count (record_state a b s) = encoder_count s"
    by (simp add: record_state_def Let_def)
  note one = rotary_step_recorded [OF i, of a b e now]
  have cw: "(a, b) \<noteq> prev \<and> h = [(1, 1), (1, 0)] \<longrightarrow>
       (\<exists>s'. rotary_step e now a b s = Inr s' \<and> events s' = events s @ [StepClockwise] \<and>
             encoder_count s' = encoder_count s + 1 \<and> last_states s' = [(1, 0)])"
    using one rec ch by blast
  have ccw: "(a, b) \<noteq> prev \<and> h = [(1, 1), (0, 1)] \<longrightarrow>
       (\<exists>s'. rotary_step e now a b s = Inr s' \<and> events s' = events s @ [StepCounterClockwise] \<and>
             encoder_count s' = encoder_count s + 1 \<and> last_states s' = [(0, 1)])"
    using one rec ch by blast
  have other: "(a, b) \<noteq> prev \<and> h \<noteq> [(1, 1), (1, 0)] \<and> h \<noteq> [(1, 1), (0, 1)] \<longrightarrow>
       (\<exists>s'. rotary_step e now a b s = Inr s' \<and> events s' = events s \<and>
             encoder_count s' = encoder_count s \<and> last_states s' = h)"
    using one rec ch e by (metis record_state_frame(1))
  show ?thesis
    by (intro conjI cw ccw other same)
qed

theorem rotary_decoding_of_samples_witness:
  "catalog_example \<noteq> [] \<and>
   run_ticks to_rest_example (init_player 0 1 1 catalog_example) = Some (Inr rest_example) \<and>
   last_two (changed_states (0, 1) (map tick_lines to_rest_example @ [(1, 0)])) =
     [(1, 1), (1, 0)] \<and>
   (\<exists>s'. rotary_step env_example 1.01 1 0 rest_example = Inr s' \<and>
      events s' = [StepClockwise] \<and> last_states s' = [(1, 0)]) \<and>
   last_two (changed_states (0, 1) (map tick_lines to_rest_example @ [(0, 1)])) =
     [(1, 1), (0, 1)] \<and>
   (\<exists>s'. rotary_step env_example 1.01 0 1 rest_example = Inr s' \<and>
      events s' = [StepCounterClockwise] \<and> last_states s' = [(0, 1)]) \<and>
   run_ticks [] idle_example = Some (Inr idle_example) \<and>
   last_two (changed_states (1, 1) (map tick_lines [] @ [(1, 0)])) = [(1, 0)] \<and>
   (\<exists>s'. rotary_step env_example 1 1 0 idle_example = Inr s' \<and>
      events s' = [] \<and> last_states s' = [(1, 0)]) \<and>
   rotary_step env_example 1 1 1 idle_example = Inr idle_example"
proof -
  have c: "catalog_example \<noteq> []"
    by (simp add: catalog_example_def)
  have r: "run_ticks to_rest_example (init_player 0 1 1 catalog_example) = Some (Inr rest_example)"
    by (simp add: to_rest_example_def rest_example_def check_encoder_def rotary_step_def
        record_state_def button_step_def init_player_def Let_def)
  have r0: "run_ticks [] (init_player 1 1 1 catalog_example) = Some (Inr idle_example)"
    by (simp add: idle_example_def)
  have p: "(1, 1) = last ((0, 1) # map tick_lines to_rest_example)"
    "(1, 1) = last ((1, 1) # map tick_lines [])"
    by (simp_all add: to_rest_example_def tick_lines_def)
  have h: "[(1, 1), (1, 0)] =
      last_two (changed_states (0, 1) (map tick_lines to_rest_example @ [(1, 0)]))"
    "[(1, 1), (0, 1)] =
      last_two (changed_states (0, 1) (map tick_lines to_rest_example @ [(0, 1)]))"
    "[(1, 0)] = last_two (changed_states (1, 1) (map tick_lines [] @ [(1, 0)]))"
    "[] = last_two (changed_states (1, 1) (map tick_lines [] @ [(1, 1)]))"
    by (simp_all add: to_rest_example_def tick_lines_def last_two_def)
  have v: "events rest_example = []" "events (init_player 1 1 1 catalog_example) = []"
    by (simp_all add: rest_example_def init_player_def)
  show ?thesis
    using rotary_decoding_of_samples [OF c r p(1) h(1), where e = env_example and now = "1.01"]
      rotary_decoding_of_samples [OF c r p(1) h(2), where e = env_example and now = "1.01"]
      rotary_decoding_of_samples [OF c r0 p(2) h(3), where e = env_example and now = 1]
      rotary_decoding_of_samples [OF c r0 p(2) h(4), where e = env_example and now = 1]
      c r r0 h [symmetric]
    by (auto simp: v idle_example_def)
qed

end
